theory Spec2Isabelle
  imports Main
begin

section \<open>Strings\<close>

text \<open>
  Go strings are byte sequences; they are modelled as \<open>string\<close> (a list of 8-bit
  characters), a text outside ASCII by its UTF-8 bytes.
\<close>

fun HasPrefix :: "string \<Rightarrow> string \<Rightarrow> bool" where
  "HasPrefix s [] = True"
| "HasPrefix [] (p # ps) = False"
| "HasPrefix (c # cs) (p # ps) = (c = p \<and> HasPrefix cs ps)"

text \<open>
  \<open>strings.TrimSpace\<close> removes the leading and the trailing white space as Unicode
  defines it (\<open>unicode.IsSpace\<close>): the six ASCII bytes tab, line feed, vertical tab, form
  feed, carriage return and space, and the code points U+0085, U+00A0, U+1680, U+2000 to
  U+200A, U+2028, U+2029, U+202F, U+205F and U+3000. \<open>spaceRunes\<close> lists their UTF-8
  encodings. A byte that starts no such encoding (an ill-formed sequence included, which
  Go decodes as U+FFFD) ends the trimming.
\<close>

definition spaceRunes :: "string list" where
  "spaceRunes =
     [ [CHR 0x09], [CHR 0x0A], [CHR 0x0B], [CHR 0x0C], [CHR 0x0D], [CHR 0x20],
      [CHR 0xC2, CHR 0x85], [CHR 0xC2, CHR 0xA0],
      [CHR 0xE1, CHR 0x9A, CHR 0x80],
      [CHR 0xE2, CHR 0x80, CHR 0x80], [CHR 0xE2, CHR 0x80, CHR 0x81],
      [CHR 0xE2, CHR 0x80, CHR 0x82], [CHR 0xE2, CHR 0x80, CHR 0x83],
      [CHR 0xE2, CHR 0x80, CHR 0x84], [CHR 0xE2, CHR 0x80, CHR 0x85],
      [CHR 0xE2, CHR 0x80, CHR 0x86], [CHR 0xE2, CHR 0x80, CHR 0x87],
      [CHR 0xE2, CHR 0x80, CHR 0x88], [CHR 0xE2, CHR 0x80, CHR 0x89],
      [CHR 0xE2, CHR 0x80, CHR 0x8A],
      [CHR 0xE2, CHR 0x80, CHR 0xA8], [CHR 0xE2, CHR 0x80, CHR 0xA9],
      [CHR 0xE2, CHR 0x80, CHR 0xAF],
      [CHR 0xE2, CHR 0x81, CHR 0x9F],
      [CHR 0xE3, CHR 0x80, CHR 0x80] ]"

text \<open>
  \<open>strings.TrimLeftFunc(s, unicode.IsSpace)\<close>, the white-space encodings given as \<open>es\<close>:
  as long as the text starts with one of them, that one is removed.
\<close>

function TrimLeftFunc :: "string list \<Rightarrow> string \<Rightarrow> string" where
  "TrimLeftFunc es s =
     (case find (HasPrefix s) es of
        None \<Rightarrow> s
      | Some e \<Rightarrow>
          if length (drop (length e) s) < length s then TrimLeftFunc es (drop (length e) s)
          else s)"
  by pat_completeness auto
termination
  by (relation "measure (\<lambda>(es, s). length s)") auto

text \<open>The trailing white space is the leading white space of the reversed text.\<close>

definition TrimSpace :: "string \<Rightarrow> string" where
  "TrimSpace s = rev (TrimLeftFunc (map rev spaceRunes) (rev (TrimLeftFunc spaceRunes s)))"

text \<open>The lower-case form of an ASCII byte: \<open>A\<close>..\<open>Z\<close> become \<open>a\<close>..\<open>z\<close>.\<close>

definition lowerc :: "char \<Rightarrow> char" where
  "lowerc c =
     (case map_of (zip ''ABCDEFGHIJKLMNOPQRSTUVWXYZ'' ''abcdefghijklmnopqrstuvwxyz'') c of
        Some d \<Rightarrow> d
      | None \<Rightarrow> c)"

text \<open>
  Matching without regard to case, as \<open>strings.EqualFold\<close> and a pattern under the flag
  \<open>(?i)\<close> do it, against an ASCII text \<open>p\<close> (every pattern and every constant of the
  program is ASCII): \<open>fold_strip p s\<close> removes from the front of \<open>s\<close> a text equal to \<open>p\<close>
  under Unicode simple case folding. An ASCII letter folds with its other case; two
  letters have a further, non-ASCII member in their folding orbit: \<open>s\<close> folds with
  U+017F (long s, bytes C5 BF) and \<open>k\<close> with U+212A (Kelvin sign, bytes E2 84 AA).
\<close>

fun fold_strip :: "string \<Rightarrow> string \<Rightarrow> string option" where
  "fold_strip [] s = Some s"
| "fold_strip (p # ps) [] = None"
| "fold_strip (p # ps) (c # cs) =
     (if lowerc c = lowerc p then fold_strip ps cs
      else if lowerc p = CHR ''s'' \<and> HasPrefix (c # cs) [CHR 0xC5, CHR 0xBF]
        then fold_strip ps (drop 1 cs)
      else if lowerc p = CHR ''k'' \<and> HasPrefix (c # cs) [CHR 0xE2, CHR 0x84, CHR 0xAA]
        then fold_strip ps (drop 2 cs)
      else None)"

text \<open>\<open>strings.EqualFold(s, t)\<close> for an ASCII \<open>t\<close>.\<close>

definition EqualFold :: "string \<Rightarrow> string \<Rightarrow> bool" where
  "EqualFold s t = (fold_strip t s = Some [])"

fun Contains :: "string \<Rightarrow> string \<Rightarrow> bool" where
  "Contains [] sub = (sub = [])"
| "Contains (c # cs) sub = (HasPrefix (c # cs) sub \<or> Contains cs sub)"

text \<open>\<open>strings.Split(s, "\n")\<close>: the empty string splits into one empty line.\<close>

fun SplitLines :: "string \<Rightarrow> string list" where
  "SplitLines [] = [ [] ]"
| "SplitLines (c # cs) =
     (if c = CHR 0x0A then [] # SplitLines cs
      else (case SplitLines cs of
              [] \<Rightarrow> [ [c] ]
            | l # ls \<Rightarrow> (c # l) # ls))"

text \<open>\<open>strings.Join(lines, "\n")\<close>.\<close>

fun JoinLines :: "string list \<Rightarrow> string" where
  "JoinLines [] = []"
| "JoinLines [l] = l"
| "JoinLines (l # m # ls) = l @ [CHR 0x0A] @ JoinLines (m # ls)"

subsection \<open>Decimal numbers\<close>

definition isDigit :: "char \<Rightarrow> bool" where
  "isDigit c = (c \<in> set ''0123456789'')"

definition digit_val :: "char \<Rightarrow> int" where
  "digit_val c =
     (case map_of (zip ''0123456789'' [0, 1, 2, 3, 4, 5, 6, 7, 8, 9]) c of
        Some d \<Rightarrow> d
      | None \<Rightarrow> 0)"

fun dec_val :: "int \<Rightarrow> string \<Rightarrow> int" where
  "dec_val acc [] = acc"
| "dec_val acc (c # cs) = dec_val (10 * acc + digit_val c) cs"

text \<open>
  \<open>strconv.Atoi\<close> on an unsigned decimal text: the value, or an error when the text is
  empty, holds a byte that is no digit, or the value does not fit the 64-bit \<open>int\<close>.
  (The sign prefix that \<open>Atoi\<close> also accepts cannot come out of the pattern \<open>\d+\<close>, the
  only caller's input.)
\<close>

definition Atoi :: "string \<Rightarrow> string + int" where
  "Atoi s =
     (if s = [] \<or> \<not> list_all isDigit s then Inl ''invalid syntax''
      else if dec_val 0 s < 2 ^ 63 then Inr (dec_val 0 s)
      else Inl ''value out of range'')"

section \<open>Regular expressions\<close>

text \<open>
  The patterns of the program are sequences of literals, alternations of literals and
  greedy repetitions of a character class. \<open>rx_match\<close> is a backtracking matcher for such
  sequences with the leftmost-first preference of Go's \<open>regexp\<close> package: a repetition
  first tries to take one more character and gives it back when the rest of the pattern
  fails; an alternation tries its branches in order. The first flag of \<open>Lit\<close> and \<open>Alt\<close>
  is the pattern flag \<open>(?i)\<close>; the last flag of \<open>Alt\<close>, \<open>Star\<close> and \<open>Plus\<close> says that the
  item is a capture group. The result is the list of captured texts and the text that
  follows the match.

  Go matches code point by code point, the matcher here byte by byte. Every class of
  the program's patterns is a set of ASCII characters (\<open>\d\<close>, \<open>\s\<close>) or the complement
  of one (\<open>[^<]\<close>, \<open>[^:]\<close>, \<open>[^\n\r]\<close>): the first holds no byte of a code point outside
  ASCII and the second holds all of them. Every pattern, and every item that follows a
  repetition, starts with an ASCII character, which is no byte of such a code point. So
  no match starts inside a code point and no repetition ends inside one, and the
  matcher finds the matches that Go finds. (A byte of an ill-formed sequence counts in
  Go as the code point U+FFFD, which the complements hold as well.)
\<close>

datatype rx =
    Lit bool string
  | Alt bool "string list" bool
  | Star "char \<Rightarrow> bool" bool
  | Plus "char \<Rightarrow> bool" bool

text \<open>
  A literal at the front of the text: what follows it, or \<open>None\<close> when the text does
  not start with the literal.
\<close>

definition lit_strip :: "bool \<Rightarrow> string \<Rightarrow> string \<Rightarrow> string option" where
  "lit_strip ci l s =
     (if ci then fold_strip l s
      else if HasPrefix s l then Some (drop (length l) s)
      else None)"

fun add_cap :: "bool \<Rightarrow> string \<Rightarrow> (string list \<times> string) option \<Rightarrow> (string list \<times> string) option" where
  "add_cap cap g None = None"
| "add_cap cap g (Some (caps, rest)) = Some (if cap then g # caps else caps, rest)"

fun ext_cap :: "bool \<Rightarrow> char \<Rightarrow> string list \<Rightarrow> string list" where
  "ext_cap True x (g # caps) = (x # g) # caps"
| "ext_cap cap x caps = caps"

fun rx_weight :: "rx list \<Rightarrow> nat" where
  "rx_weight (Alt ci ls cap # r) = length ls"
| "rx_weight r = 0"

function rx_match :: "rx list \<Rightarrow> string \<Rightarrow> (string list \<times> string) option" where
  "rx_match [] s = Some ([], s)"
| "rx_match (Lit ci l # r) s =
     (case lit_strip ci l s of
        None \<Rightarrow> None
      | Some rest \<Rightarrow> rx_match r rest)"
| "rx_match (Alt ci [] cap # r) s = None"
| "rx_match (Alt ci (l # ls) cap # r) s =
     (case (case lit_strip ci l s of
              None \<Rightarrow> None
            | Some rest \<Rightarrow> add_cap cap (take (length s - length rest) s) (rx_match r rest)) of
        Some res \<Rightarrow> Some res
      | None \<Rightarrow> rx_match (Alt ci ls cap # r) s)"
| "rx_match (Star c cap # r) [] = add_cap cap [] (rx_match r [])"
| "rx_match (Star c cap # r) (x # xs) =
     (case (if c x then rx_match (Star c cap # r) xs else None) of
        Some (caps, rest) \<Rightarrow> Some (ext_cap cap x caps, rest)
      | None \<Rightarrow> add_cap cap [] (rx_match r (x # xs)))"
| "rx_match (Plus c cap # r) [] = None"
| "rx_match (Plus c cap # r) (x # xs) =
     (if c x then (case rx_match (Star c cap # r) xs of
                     Some (caps, rest) \<Rightarrow> Some (ext_cap cap x caps, rest)
                   | None \<Rightarrow> None)
      else None)"
  by pat_completeness auto
termination
  by (relation "inv_image (less_than <*lex*> less_than <*lex*> less_than)
        (\<lambda>(re, s). (length re, rx_weight re, length s))") auto

text \<open>
  The leftmost match: the text before it, the submatches as Go numbers them (the whole
  match first, then the groups), and the text after it.
\<close>

definition submatches :: "string \<Rightarrow> string list \<times> string \<Rightarrow> string list" where
  "submatches s m = take (length s - length (snd m)) s # fst m"

fun rx_find :: "rx list \<Rightarrow> string \<Rightarrow> (string \<times> string list \<times> string) option" where
  "rx_find re [] =
     (case rx_match re [] of
        Some m \<Rightarrow> Some ([], submatches [] m, snd m)
      | None \<Rightarrow> None)"
| "rx_find re (x # xs) =
     (case rx_match re (x # xs) of
        Some m \<Rightarrow> Some ([], submatches (x # xs) m, snd m)
      | None \<Rightarrow> (case rx_find re xs of
                   Some (pre, ms, rest) \<Rightarrow> Some (x # pre, ms, rest)
                 | None \<Rightarrow> None))"

text \<open>\<open>FindStringSubmatch\<close>: the submatches of the leftmost match, \<open>nil\<close> when there is none.\<close>

definition FindStringSubmatch :: "rx list \<Rightarrow> string \<Rightarrow> string list" where
  "FindStringSubmatch re s = (case rx_find re s of None \<Rightarrow> [] | Some (pre, ms, rest) \<Rightarrow> ms)"

text \<open>
  \<open>FindAllStringSubmatch(s, -1)\<close> and \<open>ReplaceAllString(s, "")\<close>: the successive
  non-overlapping matches, searched from the end of the previous one. Every pattern of
  the program matches at least one character, so the search always continues in a
  shorter text; the branch for a match that consumed nothing only closes the recursion.
\<close>

function FindAllStringSubmatch :: "rx list \<Rightarrow> string \<Rightarrow> string list list" where
  "FindAllStringSubmatch re s =
     (case rx_find re s of
        None \<Rightarrow> []
      | Some (pre, ms, rest) \<Rightarrow>
          if length rest < length s then ms # FindAllStringSubmatch re rest else [ms])"
  by pat_completeness auto
termination
  by (relation "measure (\<lambda>(re, s). length s)") auto

function ReplaceAllString :: "rx list \<Rightarrow> string \<Rightarrow> string" where
  "ReplaceAllString re s =
     (case rx_find re s of
        None \<Rightarrow> s
      | Some (pre, ms, rest) \<Rightarrow>
          if length rest < length s then pre @ ReplaceAllString re rest else pre @ rest)"
  by pat_completeness auto
termination
  by (relation "measure (\<lambda>(re, s). length s)") auto

definition reSpace :: "char \<Rightarrow> bool" where
  "reSpace c = (c \<in> set [CHR 0x09, CHR 0x0A, CHR 0x0C, CHR 0x0D, CHR '' ''])"

definition notNewline :: "char \<Rightarrow> bool" where
  "notNewline c = (c \<noteq> CHR 0x0A \<and> c \<noteq> CHR 0x0D)"

definition notColon :: "char \<Rightarrow> bool" where
  "notColon c = (c \<noteq> CHR '':'')"

definition notLt :: "char \<Rightarrow> bool" where
  "notLt c = (c \<noteq> CHR ''<'')"

section \<open>internal/models/models.go and the tables\<close>

text \<open>
  Instants (\<open>time.Time\<close>, \<open>TIMESTAMP\<close>) are nanoseconds since the Unix epoch in UTC; a
  time of day (\<open>TIME\<close>, the preferred prompt time) is a pair of hour and minute; a date
  (\<open>DATE\<close>) is the number of the UTC day. A nullable column and a Go pointer are an
  \<open>option\<close>.
\<close>

type_synonym clock = "int \<times> int"

record User =
  uID :: int
  uEmail :: string
  uName :: string
  uTimezone :: string
  uPromptTime :: clock
  uVerificationCode :: "string option"
  uIsVerified :: bool
  uIsPaused :: bool
  uPauseUntil :: "int option"
  uProjectFocus :: "string option"
  uCreatedAt :: int
  uUpdatedAt :: int

record Entry =
  eID :: int
  eUserID :: int
  eEntryDate :: int
  eRawContent :: string
  eParsedContent :: "string option"
  eProjectTag :: "string option"
  eCreatedAt :: int
  eUpdatedAt :: int

record EmailLog =
  mID :: int
  mUserID :: "int option"
  mRecipientEmail :: string
  mEmailType :: string
  mSubject :: string
  mBodyText :: string
  mStatus :: string
  mSESMessageID :: "string option"
  mErrorMessage :: "string option"
  mRetryCount :: int
  mScheduledAt :: "int option"
  mSentAt :: "int option"
  mCreatedAt :: int
  mUpdatedAt :: int

definition EmailTypeVerification :: string where "EmailTypeVerification = ''verification''"
definition EmailTypeDailyPrompt :: string where "EmailTypeDailyPrompt = ''daily_prompt''"
definition EmailTypeWeeklySummary :: string where "EmailTypeWeeklySummary = ''weekly_summary''"
definition EmailTypeClarification :: string where "EmailTypeClarification = ''clarification''"

definition EmailStatusPending :: string where "EmailStatusPending = ''pending''"
definition EmailStatusSent :: string where "EmailStatusSent = ''sent''"
definition EmailStatusFailed :: string where "EmailStatusFailed = ''failed''"

record UserPreferences =
  Name :: string
  Timezone :: string
  PromptTime :: "clock option"
  ProjectFocus :: "string option"

section \<open>The environment\<close>

text \<open>
  What the program does not decide itself is a parameter: the clock, the outcome of each
  database statement (an error text when the driver reports one), the mail transport,
  the template rendering (its template files and, for the daily prompt, the clock and a
  random quote), the random verification code, the two functions of Go's \<open>time\<close>
  package that read the layouts and the time-zone database, and the case table of
  Unicode. \<open>LoadLocation\<close> gives, for a zone name that loads, the zone's offset from UTC
  in seconds at each instant. \<open>Map_unicode_ToLower\<close> is \<open>strings.Map(unicode.ToLower, s)\<close>,
  the lower-case form of a text code point by code point.
  In \<open>PromptTime\<close> of the preferences \<open>None\<close> is the zero \<open>time.Time\<close>.
\<close>

datatype stmt =
    QueryUserByEmail string
  | InsertUser string string
  | UpdateVerificationCode int string
  | UpdateVerifyUser int UserPreferences
  | UpdatePauseUser int int
  | UpdateUserProject int string
  | UpsertEntry int int string "string option"
  | QueryUsersForDailyPrompt int
  | InsertEmailLog "int option" string string string string "int option"
  | QueryPendingEmails
  | UpdateEmailSent int string
  | UpdateEmailFailed int string

record env =
  now :: int
  db_error :: "stmt \<Rightarrow> string option"
  ses_SendEmail :: "EmailLog \<Rightarrow> string + string"
  RenderWelcomeEmail :: "string \<Rightarrow> string + (string \<times> string)"
  RenderDailyPromptEmail :: "string option \<Rightarrow> string + (string \<times> string)"
  RenderClarificationEmail :: "string \<Rightarrow> string + (string \<times> string)"
  GenerateVerificationCode :: string
  time_Parse :: "string \<Rightarrow> string \<Rightarrow> clock option"
  LoadLocation :: "string \<Rightarrow> (int \<Rightarrow> int) option"
  Map_unicode_ToLower :: "string \<Rightarrow> string"

text \<open>
  The state: the three tables in insertion order, their \<open>SERIAL\<close> counters, and the
  messages handed to the mail transport so far.
\<close>

record world =
  users :: "User list"
  entries :: "Entry list"
  email_logs :: "EmailLog list"
  users_id_seq :: int
  entries_id_seq :: int
  email_logs_id_seq :: int
  ses_calls :: "EmailLog list"

text \<open>
  \<open>db.ExecContext\<close>: the statement either fails and changes nothing, or takes effect.
  A function of the program returns its \<open>error\<close> (\<open>None\<close> is \<open>nil\<close>) with the state it
  leaves behind.
\<close>

definition ExecContext :: "env \<Rightarrow> stmt \<Rightarrow> (world \<Rightarrow> world) \<Rightarrow> world \<Rightarrow> string option \<times> world" where
  "ExecContext ev q effect w =
     (case db_error ev q of
        Some err \<Rightarrow> (Some err, w)
      | None \<Rightarrow> (None, effect w))"

definition wrapErr :: "string \<Rightarrow> string option \<times> world \<Rightarrow> string option \<times> world" where
  "wrapErr msg r = (case fst r of None \<Rightarrow> r | Some err \<Rightarrow> (Some (msg @ '': '' @ err), snd r))"

text \<open>
  \<open>strings.ToLower\<close>: a text of ASCII bytes only is lower-cased byte by byte; a text
  holding a byte from \<open>0x80\<close> on goes through the case table of Unicode.
\<close>

definition isASCII :: "char \<Rightarrow> bool" where
  "isASCII c = (of_char c < (128 :: nat))"

definition ToLower :: "env \<Rightarrow> string \<Rightarrow> string" where
  "ToLower ev s = (if list_all isASCII s then map lowerc s else Map_unicode_ToLower ev s)"

section \<open>internal/core/parser.go\<close>

type_synonym Duration = int

record Command =
  Type :: string
  Value :: string
  Duration :: "Duration option"

record ParsedReply =
  Content :: string
  Commands :: "Command list"
  ProjectTag :: "string option"
  IsValidated :: bool
  Error :: "string option"

definition CommandTypePause :: string where "CommandTypePause = ''pause''"
definition CommandTypeProject :: string where "CommandTypeProject = ''project''"
definition CommandTypeEntry :: string where "CommandTypeEntry = ''entry''"

definition pauseRegex :: "rx list" where
  "pauseRegex = [Lit False ''<pause>'', Plus notLt True, Lit False ''</pause>'']"

definition projectRegex :: "rx list" where
  "projectRegex = [Lit False ''<project>'', Plus notLt True, Lit False ''</project>'']"

definition entryRegex :: "rx list" where
  "entryRegex = [Lit False ''<entry>'', Plus notLt True, Lit False ''</entry>'']"

text \<open>
  \<open>time.Duration\<close> is a signed 64-bit count of nanoseconds; its multiplication wraps
  around. \<open>wrap64\<close> is the two's-complement reading of an integer.
\<close>

definition wrap64 :: "int \<Rightarrow> int" where
  "wrap64 x = (x + 2 ^ 63) mod 2 ^ 64 - 2 ^ 63"

definition dur_mul :: "Duration \<Rightarrow> Duration \<Rightarrow> Duration" where
  "dur_mul a b = wrap64 (a * b)"

definition Hour :: Duration where
  "Hour = 3600000000000"

definition durationRegex :: "rx list" where
  "durationRegex =
     [Plus isDigit True, Star reSpace False,
      Alt False [''day'', ''days'', ''week'', ''weeks'', ''month'', ''months''] True]"

definition parsePauseDuration :: "env \<Rightarrow> string \<Rightarrow> string + Duration" where
  "parsePauseDuration ev durationStr0 =
     (let durationStr = ToLower ev (TrimSpace durationStr0) in
      if durationStr = ''today'' then Inr (dur_mul 24 Hour)
      else if durationStr = ''tomorrow'' then Inr (dur_mul 24 Hour)
      else if durationStr = ''this week'' \<or> durationStr = ''1 week''
        then Inr (dur_mul (dur_mul 7 24) Hour)
      else if durationStr = ''next week'' then Inr (dur_mul (dur_mul 7 24) Hour)
      else if durationStr = ''this month'' \<or> durationStr = ''1 month''
        then Inr (dur_mul (dur_mul 30 24) Hour)
      else if durationStr = ''next month'' then Inr (dur_mul (dur_mul 30 24) Hour)
      else
        (let matches = FindStringSubmatch durationRegex durationStr in
         if length matches \<noteq> 3 then Inl (''invalid duration format: '' @ durationStr)
         else
           (case Atoi (matches ! 1) of
              Inl err \<Rightarrow> Inl (''invalid number in duration: '' @ matches ! 1)
            | Inr number \<Rightarrow>
                (let unit = matches ! 2 in
                 if unit = ''day'' \<or> unit = ''days''
                   then Inr (dur_mul (dur_mul number 24) Hour)
                 else if unit = ''week'' \<or> unit = ''weeks''
                   then Inr (dur_mul (dur_mul (dur_mul number 7) 24) Hour)
                 else if unit = ''month'' \<or> unit = ''months''
                   then Inr (dur_mul (dur_mul (dur_mul number 30) 24) Hour)
                 else Inl (''unknown time unit: '' @ unit)))))"

fun cleanLoop :: "string list \<Rightarrow> string list \<Rightarrow> string list" where
  "cleanLoop [] cleanLines = cleanLines"
| "cleanLoop (l # ls) cleanLines =
     (let line = TrimSpace l in
      if line = [] then cleanLoop ls cleanLines
      else if HasPrefix line ''--'' \<or> HasPrefix line ''Sent from'' \<or> HasPrefix line ''From:''
              \<or> HasPrefix line ''To:'' \<or> HasPrefix line ''Subject:'' \<or> HasPrefix line ''Date:''
              \<or> HasPrefix line ''>''
        then cleanLoop ls cleanLines
      else if HasPrefix line ''On '' \<and> Contains line ''wrote:'' then cleanLines
      else cleanLoop ls (cleanLines @ [line]))"

definition cleanEmailContent :: "string \<Rightarrow> string" where
  "cleanEmailContent content = JoinLines (cleanLoop (SplitLines content) [])"

text \<open>
  The three extraction loops of \<open>ParseEmailReply\<close>. The pause loop returns from the whole
  function at the first duration that does not parse; here it stops with \<open>IsValidated\<close>
  cleared, and \<open>ParseEmailReply\<close> returns that result.
\<close>

fun pauseLoop :: "env \<Rightarrow> string list list \<Rightarrow> ParsedReply \<Rightarrow> ParsedReply" where
  "pauseLoop ev [] result = result"
| "pauseLoop ev (match # matches) result =
     (if length match > 1 then
        (case parsePauseDuration ev (match ! 1) of
           Inl err \<Rightarrow>
             result\<lparr>Error := Some (''invalid pause duration: '' @ match ! 1), IsValidated := False\<rparr>
         | Inr duration \<Rightarrow>
             pauseLoop ev matches
               (result\<lparr>Commands := Commands result @
                   [\<lparr>Type = CommandTypePause, Value = match ! 1, Duration = Some duration\<rparr>]\<rparr>))
      else pauseLoop ev matches result)"

fun projectLoop :: "string list list \<Rightarrow> ParsedReply \<Rightarrow> ParsedReply" where
  "projectLoop [] result = result"
| "projectLoop (match # matches) result =
     (if length match > 1 then
        (let projectName = TrimSpace (match ! 1) in
         projectLoop matches
           (result\<lparr>Commands := Commands result @
                [\<lparr>Type = CommandTypeProject, Value = projectName, Duration = None\<rparr>],
              ProjectTag := Some projectName\<rparr>))
      else projectLoop matches result)"

fun entryLoop :: "string list list \<Rightarrow> ParsedReply \<Rightarrow> ParsedReply" where
  "entryLoop [] result = result"
| "entryLoop (match # matches) result =
     (if length match > 1 then
        (let entryContent = TrimSpace (match ! 1) in
         entryLoop matches
           (result\<lparr>Commands := Commands result @
                [\<lparr>Type = CommandTypeEntry, Value = entryContent, Duration = None\<rparr>]\<rparr>))
      else entryLoop matches result)"

definition stripTags :: "string \<Rightarrow> string" where
  "stripTags c =
     TrimSpace (ReplaceAllString entryRegex
       (ReplaceAllString projectRegex (ReplaceAllString pauseRegex c)))"

definition ParseEmailReply :: "env \<Rightarrow> string \<Rightarrow> ParsedReply" where
  "ParseEmailReply ev rawContent =
     (let content = cleanEmailContent (TrimSpace rawContent);
          result0 = \<lparr>Content = content, Commands = [], ProjectTag = None,
                      IsValidated = True, Error = None\<rparr>;
          result1 = pauseLoop ev (FindAllStringSubmatch pauseRegex content) result0
      in if \<not> IsValidated result1 then result1
         else
           (let result2 = projectLoop (FindAllStringSubmatch projectRegex content) result1;
                result3 = entryLoop (FindAllStringSubmatch entryRegex content) result2;
                result4 = result3\<lparr>Content := stripTags (Content result3)\<rparr>;
                result5 =
                  (if Content result4 \<noteq> [] \<and> length (Commands result4) = 0
                   then result4\<lparr>Commands := Commands result4 @
                          [\<lparr>Type = CommandTypeEntry, Value = Content result4, Duration = None\<rparr>]\<rparr>
                   else result4)
            in if Content result5 = [] \<and> length (Commands result5) = 0
               then result5\<lparr>Error := Some ''no meaningful content found in reply'',
                            IsValidated := False\<rparr>
               else result5))"

definition verificationPatterns :: "string list" where
  "verificationPatterns =
     [''verify'', ''verification'', ''confirm'', ''confirmation'', ''activate'', ''activation'',
      ''sign up'', ''signup'', ''start'', ''begin'']"

definition NeedsVerification :: "env \<Rightarrow> string \<Rightarrow> bool" where
  "NeedsVerification ev email = list_ex (Contains (ToLower ev email)) verificationPatterns"

section \<open>internal/core/preferences.go\<close>

definition nameRegex :: "rx list" where
  "nameRegex = [Lit True ''name:'', Star reSpace False, Plus notNewline True]"

definition timezoneRegex :: "rx list" where
  "timezoneRegex =
     [Lit True ''timezone'', Star notColon False, Lit True '':'', Star reSpace False,
      Plus notNewline True]"

definition timeRegex :: "rx list" where
  "timeRegex =
     [Alt True [''time'', ''prompt''] False, Star notColon False, Lit True '':'',
      Star reSpace False, Plus notNewline True]"

definition prefsProjectRegex :: "rx list" where
  "prefsProjectRegex =
     [Alt True [''project'', ''focus''] False, Star notColon False, Lit True '':'',
      Star reSpace False, Plus notNewline True]"

definition timeFormats :: "string list" where
  "timeFormats = [''15:04'', ''3:04 PM'', ''3:04PM'', ''3 PM'', ''3PM'', ''15'']"

fun parseFormats :: "env \<Rightarrow> string list \<Rightarrow> string \<Rightarrow> string + clock" where
  "parseFormats ev [] timeStr = Inl (''unable to parse time: '' @ timeStr)"
| "parseFormats ev (format # formats) timeStr =
     (case time_Parse ev format timeStr of
        Some t \<Rightarrow> Inr (fst t, snd t)
      | None \<Rightarrow> parseFormats ev formats timeStr)"

definition parseTimeString :: "env \<Rightarrow> string \<Rightarrow> string + clock" where
  "parseTimeString ev timeStr = parseFormats ev timeFormats (TrimSpace timeStr)"

definition validTimezones :: "string list" where
  "validTimezones =
     [''UTC'', ''GMT'',
      ''America/New_York'', ''America/Chicago'', ''America/Denver'', ''America/Los_Angeles'',
      ''America/Toronto'', ''America/Vancouver'', ''America/Montreal'',
      ''Europe/London'', ''Europe/Paris'', ''Europe/Berlin'', ''Europe/Rome'', ''Europe/Madrid'',
      ''Asia/Tokyo'', ''Asia/Shanghai'', ''Asia/Kolkata'', ''Asia/Dubai'',
      ''Australia/Sydney'', ''Australia/Melbourne'',
      ''Pacific/Auckland'']"

definition isValidTimezone :: "env \<Rightarrow> string \<Rightarrow> bool" where
  "isValidTimezone ev tz = (list_ex (EqualFold tz) validTimezones \<or> LoadLocation ev tz \<noteq> None)"

definition isPlaceholder :: "string \<Rightarrow> bool" where
  "isPlaceholder v = (v = [] \<or> v = ''_'' \<or> v = ''___________'')"

text \<open>The value a preference pattern captures, trimmed; empty when the pattern finds nothing.\<close>

definition captured :: "rx list \<Rightarrow> string \<Rightarrow> string option" where
  "captured re body =
     (let matches = FindStringSubmatch re body in
      if length matches > 1 then Some (TrimSpace (matches ! 1)) else None)"

definition parseUserPreferences :: "env \<Rightarrow> string \<Rightarrow> string + UserPreferences" where
  "parseUserPreferences ev body =
     (let name = (case captured nameRegex body of Some v \<Rightarrow> v | None \<Rightarrow> []);
          tz = (case captured timezoneRegex body of Some v \<Rightarrow> v | None \<Rightarrow> [])
      in case (case captured timeRegex body of
                 Some timeStr \<Rightarrow>
                   (case parseTimeString ev timeStr of
                      Inl err \<Rightarrow> Inl (''invalid time format: '' @ timeStr)
                    | Inr parsedTime \<Rightarrow> Inr (Some parsedTime))
               | None \<Rightarrow> Inr None) of
           Inl err \<Rightarrow> Inl err
         | Inr promptTime \<Rightarrow>
             (let project =
                    (case captured prefsProjectRegex body of
                       Some projectName \<Rightarrow>
                         if \<not> isPlaceholder projectName then Some projectName else None
                     | None \<Rightarrow> None)
              in if isPlaceholder name then Inl ''name is required''
                 else if isPlaceholder tz then Inl ''timezone is required''
                 else if \<not> isValidTimezone ev tz then Inl (''invalid timezone: '' @ tz)
                 else Inr \<lparr>Name = name, Timezone = tz,
                           PromptTime = (if promptTime = None then Some (16, 0) else promptTime),
                           ProjectFocus = project\<rparr>))"

section \<open>internal/email/service.go\<close>

definition newEmailLog :: "env \<Rightarrow> int \<Rightarrow> int option \<Rightarrow> string \<Rightarrow> string \<Rightarrow> string \<Rightarrow> string \<Rightarrow> int option \<Rightarrow> EmailLog" where
  "newEmailLog ev i userID recipientEmail emailType subject body scheduledAt =
     \<lparr>mID = i, mUserID = userID, mRecipientEmail = recipientEmail, mEmailType = emailType,
      mSubject = subject, mBodyText = body, mStatus = EmailStatusPending,
      mSESMessageID = None, mErrorMessage = None, mRetryCount = 0,
      mScheduledAt = scheduledAt, mSentAt = None, mCreatedAt = now ev, mUpdatedAt = now ev\<rparr>"

definition QueueEmail :: "env \<Rightarrow> int option \<Rightarrow> string \<Rightarrow> string \<Rightarrow> string \<Rightarrow> string \<Rightarrow> int option \<Rightarrow> world \<Rightarrow> string option \<times> world" where
  "QueueEmail ev userID recipientEmail emailType subject body scheduledAt w =
     wrapErr ''failed to queue email''
       (ExecContext ev (InsertEmailLog userID recipientEmail emailType subject body scheduledAt)
          (\<lambda>w. w\<lparr>email_logs := email_logs w @
                      [newEmailLog ev (email_logs_id_seq w + 1) userID recipientEmail emailType
                         subject body scheduledAt],
                   email_logs_id_seq := email_logs_id_seq w + 1\<rparr>) w)"

definition markEmailSent :: "env \<Rightarrow> int \<Rightarrow> string \<Rightarrow> world \<Rightarrow> string option \<times> world" where
  "markEmailSent ev emailID messageID w =
     wrapErr ''failed to mark email as sent''
       (ExecContext ev (UpdateEmailSent emailID messageID)
          (\<lambda>w. w\<lparr>email_logs :=
                     map (\<lambda>m. if mID m = emailID
                               then m\<lparr>mStatus := EmailStatusSent, mSESMessageID := Some messageID,
                                      mSentAt := Some (now ev), mUpdatedAt := now ev\<rparr>
                               else m) (email_logs w)\<rparr>) w)"

definition markEmailFailed :: "env \<Rightarrow> int \<Rightarrow> string \<Rightarrow> world \<Rightarrow> string option \<times> world" where
  "markEmailFailed ev emailID errorMsg w =
     wrapErr ''failed to mark email as failed''
       (ExecContext ev (UpdateEmailFailed emailID errorMsg)
          (\<lambda>w. w\<lparr>email_logs :=
                     map (\<lambda>m. if mID m = emailID
                               then m\<lparr>mStatus := EmailStatusFailed, mErrorMessage := Some errorMsg,
                                      mRetryCount := mRetryCount m + 1, mUpdatedAt := now ev\<rparr>
                               else m) (email_logs w)\<rparr>) w)"

text \<open>
  \<open>sendEmail\<close> hands the message to the transport (recorded in \<open>ses_calls\<close>) and, when the
  transport accepted it, records the status \<open>sent\<close>.
\<close>

definition sendEmail :: "env \<Rightarrow> EmailLog \<Rightarrow> world \<Rightarrow> string option \<times> world" where
  "sendEmail ev email w =
     (let w1 = w\<lparr>ses_calls := ses_calls w @ [email]\<rparr> in
      case ses_SendEmail ev email of
        Inl err \<Rightarrow> (Some (''failed to send email via SES: '' @ err), w1)
      | Inr messageId \<Rightarrow> markEmailSent ev (mID email) messageId w1)"

text \<open>
  The query of \<open>ProcessOutbox\<close> and what \<open>rows.Scan\<close> copies of each row; the other fields
  of the struct keep their zero value. Rows with equal \<open>created_at\<close> are taken in table
  order. The query's result is fixed when the query runs: the loop works on that list,
  whatever happens to the table meanwhile.
\<close>

definition scanEmailLog :: "EmailLog \<Rightarrow> EmailLog" where
  "scanEmailLog m =
     \<lparr>mID = mID m, mUserID = mUserID m, mRecipientEmail = mRecipientEmail m,
      mEmailType = mEmailType m, mSubject = mSubject m, mBodyText = mBodyText m,
      mStatus = [], mSESMessageID = None, mErrorMessage = None, mRetryCount = mRetryCount m,
      mScheduledAt = None, mSentAt = None, mCreatedAt = 0, mUpdatedAt = 0\<rparr>"

definition isDue :: "env \<Rightarrow> EmailLog \<Rightarrow> bool" where
  "isDue ev m =
     (mStatus m = ''pending'' \<and>
      (case mScheduledAt m of None \<Rightarrow> True | Some t \<Rightarrow> t \<le> now ev))"

definition pendingEmails :: "env \<Rightarrow> world \<Rightarrow> EmailLog list" where
  "pendingEmails ev w =
     map scanEmailLog (take 10 (sort_key mCreatedAt (filter (isDue ev) (email_logs w))))"

fun outboxLoop :: "env \<Rightarrow> EmailLog list \<Rightarrow> world \<Rightarrow> world" where
  "outboxLoop ev [] w = w"
| "outboxLoop ev (email # rows) w =
     (case sendEmail ev email w of
        (Some err, w1) \<Rightarrow> outboxLoop ev rows (snd (markEmailFailed ev (mID email) err w1))
      | (None, w1) \<Rightarrow> outboxLoop ev rows w1)"

definition ProcessOutbox :: "env \<Rightarrow> world \<Rightarrow> string option \<times> world" where
  "ProcessOutbox ev w =
     (case db_error ev QueryPendingEmails of
        Some err \<Rightarrow> (Some (''failed to query pending emails: '' @ err), w)
      | None \<Rightarrow> (None, outboxLoop ev (pendingEmails ev w) w))"

definition SendWelcomeEmail :: "env \<Rightarrow> string \<Rightarrow> string \<Rightarrow> world \<Rightarrow> string option \<times> world" where
  "SendWelcomeEmail ev recipientEmail verificationCode w =
     (case RenderWelcomeEmail ev verificationCode of
        Inl err \<Rightarrow> (Some (''failed to render welcome email: '' @ err), w)
      | Inr (subject, body) \<Rightarrow>
          QueueEmail ev None recipientEmail EmailTypeVerification subject body None w)"

definition SendDailyPrompt :: "env \<Rightarrow> int \<Rightarrow> string \<Rightarrow> string option \<Rightarrow> world \<Rightarrow> string option \<times> world" where
  "SendDailyPrompt ev userID recipientEmail projectFocus w =
     (case RenderDailyPromptEmail ev projectFocus of
        Inl err \<Rightarrow> (Some (''failed to render daily prompt: '' @ err), w)
      | Inr (subject, body) \<Rightarrow>
          QueueEmail ev (Some userID) recipientEmail EmailTypeDailyPrompt subject body None w)"

definition SendClarificationRequest :: "env \<Rightarrow> int \<Rightarrow> string \<Rightarrow> string \<Rightarrow> world \<Rightarrow> string option \<times> world" where
  "SendClarificationRequest ev userID recipientEmail originalMessage w =
     (case RenderClarificationEmail ev originalMessage of
        Inl err \<Rightarrow> (Some (''failed to render clarification email: '' @ err), w)
      | Inr (subject, body) \<Rightarrow>
          QueueEmail ev (Some userID) recipientEmail EmailTypeClarification subject body None w)"

definition GetUserByEmail :: "env \<Rightarrow> string \<Rightarrow> world \<Rightarrow> string + User option" where
  "GetUserByEmail ev email w =
     (case db_error ev (QueryUserByEmail email) of
        Some err \<Rightarrow> Inl (''failed to get user by email: '' @ err)
      | None \<Rightarrow> Inr (find (\<lambda>u. uEmail u = email) (users w)))"


section \<open>internal/core/service.go\<close>

definition contains :: "env \<Rightarrow> string \<Rightarrow> string \<Rightarrow> bool" where
  "contains ev text substr =
     (length text > 0 \<and> length substr > 0 \<and> Contains (ToLower ev text) (ToLower ev substr))"

definition updateUsers :: "int \<Rightarrow> (User \<Rightarrow> User) \<Rightarrow> world \<Rightarrow> world" where
  "updateUsers userID f w = w\<lparr>users := map (\<lambda>u. if uID u = userID then f u else u) (users w)\<rparr>"

definition createPendingUser :: "env \<Rightarrow> string \<Rightarrow> string \<Rightarrow> world \<Rightarrow> string option \<times> world" where
  "createPendingUser ev email verificationCode w =
     ExecContext ev (InsertUser email verificationCode)
       (\<lambda>w. w\<lparr>users := users w @
                   [\<lparr>uID = users_id_seq w + 1, uEmail = email, uName = ''New User'',
                     uTimezone = ''UTC'', uPromptTime = (16, 0),
                     uVerificationCode = Some verificationCode, uIsVerified = False,
                     uIsPaused = False, uPauseUntil = None, uProjectFocus = None,
                     uCreatedAt = now ev, uUpdatedAt = now ev\<rparr>],
                users_id_seq := users_id_seq w + 1\<rparr>) w"

definition updateUserVerificationCode :: "env \<Rightarrow> int \<Rightarrow> string \<Rightarrow> world \<Rightarrow> string option \<times> world" where
  "updateUserVerificationCode ev userID verificationCode w =
     ExecContext ev (UpdateVerificationCode userID verificationCode)
       (updateUsers userID
          (\<lambda>u. u\<lparr>uVerificationCode := Some verificationCode, uUpdatedAt := now ev\<rparr>)) w"

definition verifyUser :: "env \<Rightarrow> int \<Rightarrow> UserPreferences \<Rightarrow> world \<Rightarrow> string option \<times> world" where
  "verifyUser ev userID prefs w =
     ExecContext ev (UpdateVerifyUser userID prefs)
       (updateUsers userID
          (\<lambda>u. u\<lparr>uName := Name prefs, uTimezone := Timezone prefs,
                  uPromptTime := (case PromptTime prefs of Some t \<Rightarrow> t | None \<Rightarrow> (0, 0)),
                  uProjectFocus := ProjectFocus prefs, uIsVerified := True,
                  uVerificationCode := None, uUpdatedAt := now ev\<rparr>)) w"

definition pauseUser :: "env \<Rightarrow> int \<Rightarrow> Duration \<Rightarrow> world \<Rightarrow> string option \<times> world" where
  "pauseUser ev userID duration w =
     (let pauseUntil = now ev + duration in
      ExecContext ev (UpdatePauseUser userID pauseUntil)
        (updateUsers userID
           (\<lambda>u. u\<lparr>uIsPaused := True, uPauseUntil := Some pauseUntil, uUpdatedAt := now ev\<rparr>)) w)"

definition updateUserProject :: "env \<Rightarrow> int \<Rightarrow> string \<Rightarrow> world \<Rightarrow> string option \<times> world" where
  "updateUserProject ev userID projectName w =
     ExecContext ev (UpdateUserProject userID projectName)
       (updateUsers userID (\<lambda>u. u\<lparr>uProjectFocus := Some projectName, uUpdatedAt := now ev\<rparr>)) w"

text \<open>
  \<open>saveEntry\<close>: \<open>INSERT ... ON CONFLICT (user_id, entry_date) DO UPDATE\<close> against the
  unique index \<open>idx_entries_user_date\<close>. The date is the UTC day of the clock. The
  database draws the next \<open>id\<close> before it detects the conflict, so the counter advances
  in both cases.
\<close>

definition utcDay :: "int \<Rightarrow> int" where
  "utcDay t = t div (24 * Hour)"

definition sameKey :: "int \<Rightarrow> int \<Rightarrow> Entry \<Rightarrow> bool" where
  "sameKey userID day e = (eUserID e = userID \<and> eEntryDate e = day)"

definition upsertEntry :: "env \<Rightarrow> int \<Rightarrow> int \<Rightarrow> string \<Rightarrow> string option \<Rightarrow> world \<Rightarrow> world" where
  "upsertEntry ev userID today content projectTag w =
     (if list_ex (sameKey userID today) (entries w)
      then w\<lparr>entries :=
                map (\<lambda>e. if sameKey userID today e
                          then e\<lparr>eRawContent := content, eParsedContent := Some content,
                                 eProjectTag := projectTag, eUpdatedAt := now ev\<rparr>
                          else e) (entries w),
              entries_id_seq := entries_id_seq w + 1\<rparr>
      else w\<lparr>entries := entries w @
                [\<lparr>eID = entries_id_seq w + 1, eUserID = userID, eEntryDate = today,
                  eRawContent = content, eParsedContent = Some content,
                  eProjectTag = projectTag, eCreatedAt = now ev, eUpdatedAt = now ev\<rparr>],
              entries_id_seq := entries_id_seq w + 1\<rparr>)"

definition saveEntry :: "env \<Rightarrow> int \<Rightarrow> string \<Rightarrow> string option \<Rightarrow> world \<Rightarrow> string option \<times> world" where
  "saveEntry ev userID content projectTag w =
     (let today = utcDay (now ev) in
      ExecContext ev (UpsertEntry userID today content projectTag)
        (upsertEntry ev userID today content projectTag) w)"

text \<open>
  \<open>GetUsersForDailyPrompt\<close>: the rows the query keeps, with the six columns it scans.
  In SQL \<open>pause_until < NOW()\<close> is not true for a \<open>NULL\<close> \<open>pause_until\<close>.
\<close>

definition scanUser :: "User \<Rightarrow> User" where
  "scanUser u =
     \<lparr>uID = uID u, uEmail = uEmail u, uName = uName u, uTimezone = uTimezone u,
      uPromptTime = uPromptTime u, uVerificationCode = None, uIsVerified = False,
      uIsPaused = False, uPauseUntil = None, uProjectFocus = uProjectFocus u,
      uCreatedAt = 0, uUpdatedAt = 0\<rparr>"

definition promptQuery :: "env \<Rightarrow> int \<Rightarrow> User \<Rightarrow> bool" where
  "promptQuery ev currentHour u =
     (uIsVerified u \<and>
      (\<not> uIsPaused u \<or> (case uPauseUntil u of None \<Rightarrow> False | Some t \<Rightarrow> t < now ev)) \<and>
      fst (uPromptTime u) = currentHour)"

definition GetUsersForDailyPrompt :: "env \<Rightarrow> int \<Rightarrow> world \<Rightarrow> string + User list" where
  "GetUsersForDailyPrompt ev currentHour w =
     (case db_error ev (QueryUsersForDailyPrompt currentHour) of
        Some err \<Rightarrow> Inl (''failed to query users for daily prompt: '' @ err)
      | None \<Rightarrow> Inr (map scanUser (filter (promptQuery ev currentHour) (users w))))"

definition HandleSignupRequest :: "env \<Rightarrow> string \<Rightarrow> world \<Rightarrow> string option \<times> world" where
  "HandleSignupRequest ev emailAddr w =
     (case GetUserByEmail ev emailAddr w of
        Inl err \<Rightarrow> (Some (''failed to check existing user: '' @ err), w)
      | Inr existingUser \<Rightarrow>
          if (case existingUser of Some u \<Rightarrow> uIsVerified u | None \<Rightarrow> False)
          then (Some ''user already exists and is verified'', w)
          else
            (let verificationCode = GenerateVerificationCode ev;
                 r = (case existingUser of
                        Some u \<Rightarrow> updateUserVerificationCode ev (uID u) verificationCode w
                      | None \<Rightarrow> createPendingUser ev emailAddr verificationCode w)
             in case fst r of
                  Some err \<Rightarrow> (Some (''failed to create/update user: '' @ err), snd r)
                | None \<Rightarrow> SendWelcomeEmail ev emailAddr verificationCode (snd r)))"

definition handleVerificationReply :: "env \<Rightarrow> User \<Rightarrow> string \<Rightarrow> world \<Rightarrow> string option \<times> world" where
  "handleVerificationReply ev user body w =
     (case uVerificationCode user of
        None \<Rightarrow> (Some ''no verification code set for user'', w)
      | Some code \<Rightarrow>
          if \<not> contains ev body code
          then SendClarificationRequest ev (uID user) (uEmail user)
                 ''Please include your verification code in your reply'' w
          else
            (case parseUserPreferences ev body of
               Inl err \<Rightarrow>
                 SendClarificationRequest ev (uID user) (uEmail user)
                   ''Please provide your preferences in the format shown in the welcome email'' w
             | Inr preferences \<Rightarrow> verifyUser ev (uID user) preferences w))"

text \<open>
  One command of the reply. A pause command always carries its duration; the
  dereference of a missing one would stop the program, which is reported here as an
  error of the command.
\<close>

definition applyCommand :: "env \<Rightarrow> User \<Rightarrow> ParsedReply \<Rightarrow> Command \<Rightarrow> world \<Rightarrow> string option \<times> world" where
  "applyCommand ev user parsed cmd w =
     (if Type cmd = CommandTypePause then
        (case Duration cmd of
           Some d \<Rightarrow> pauseUser ev (uID user) d w
         | None \<Rightarrow> (Some ''invalid memory address or nil pointer dereference'', w))
      else if Type cmd = CommandTypeProject then updateUserProject ev (uID user) (Value cmd) w
      else if Type cmd = CommandTypeEntry
        then saveEntry ev (uID user) (Value cmd) (ProjectTag parsed) w
      else (None, w))"

fun processCommands :: "env \<Rightarrow> User \<Rightarrow> string \<Rightarrow> ParsedReply \<Rightarrow> Command list \<Rightarrow> world \<Rightarrow> string option \<times> world" where
  "processCommands ev user body parsed [] w = (None, w)"
| "processCommands ev user body parsed (cmd # cmds) w =
     (case applyCommand ev user parsed cmd w of
        (Some err, w1) \<Rightarrow> SendClarificationRequest ev (uID user) (uEmail user) body w1
      | (None, w1) \<Rightarrow> processCommands ev user body parsed cmds w1)"

definition HandleEmailReply :: "env \<Rightarrow> string \<Rightarrow> string \<Rightarrow> string \<Rightarrow> world \<Rightarrow> string option \<times> world" where
  "HandleEmailReply ev senderEmail subject body w =
     (case GetUserByEmail ev senderEmail w of
        Inl err \<Rightarrow> (Some (''failed to get user: '' @ err), w)
      | Inr None \<Rightarrow>
          if NeedsVerification ev body then HandleSignupRequest ev senderEmail w
          else (Some ''unknown sender, please sign up first'', w)
      | Inr (Some user) \<Rightarrow>
          if \<not> uIsVerified user then handleVerificationReply ev user body w
          else
            (let parsed = ParseEmailReply ev body in
             if \<not> IsValidated parsed
             then SendClarificationRequest ev (uID user) (uEmail user) body w
             else processCommands ev user body parsed (Commands parsed) w))"

section \<open>cmd/scheduler/main.go\<close>

definition utcHour :: "int \<Rightarrow> int" where
  "utcHour t = (t div Hour) mod 24"

definition shouldSendPrompt :: "env \<Rightarrow> User \<Rightarrow> int \<Rightarrow> bool" where
  "shouldSendPrompt ev user currentHour =
     (case LoadLocation ev (uTimezone user) of
        None \<Rightarrow> False
      | Some offset \<Rightarrow>
          (let userTime = now ev + offset (now ev) * 1000000000;
               promptHour = fst (uPromptTime user)
           in utcHour userTime = promptHour))"

fun promptLoop :: "env \<Rightarrow> int \<Rightarrow> User list \<Rightarrow> world \<Rightarrow> world" where
  "promptLoop ev currentHour [] w = w"
| "promptLoop ev currentHour (user # rest) w =
     (if shouldSendPrompt ev user currentHour
      then promptLoop ev currentHour rest
             (snd (SendDailyPrompt ev (uID user) (uEmail user) (uProjectFocus user) w))
      else promptLoop ev currentHour rest w)"

definition sendDailyPrompts :: "env \<Rightarrow> world \<Rightarrow> string option \<times> world" where
  "sendDailyPrompts ev w =
     (let currentHour = utcHour (now ev) in
      case GetUsersForDailyPrompt ev currentHour w of
        Inl err \<Rightarrow> (Some err, w)
      | Inr us \<Rightarrow> (None, promptLoop ev currentHour us w))"

text \<open>The accounts \<open>sendDailyPrompts\<close> issues a prompt for at the instant \<open>now\<close>.\<close>

definition promptedUsers :: "env \<Rightarrow> world \<Rightarrow> User list" where
  "promptedUsers ev w =
     (let currentHour = utcHour (now ev) in
      case GetUsersForDailyPrompt ev currentHour w of
        Inl err \<Rightarrow> []
      | Inr us \<Rightarrow> filter (\<lambda>user. shouldSendPrompt ev user currentHour) us)"


section \<open>Notions used in the statements and proofs\<close>

text \<open>The ASCII white space (the table \<open>asciiSpace\<close> of package \<open>strings\<close>).\<close>

definition asciiSpace :: "char \<Rightarrow> bool" where
  "asciiSpace c = (c \<in> set [CHR 0x09, CHR 0x0A, CHR 0x0B, CHR 0x0C, CHR 0x0D, CHR 0x20])"

text \<open>The unit words of the duration pattern, and the alternative the pattern takes for each.\<close>

definition units :: "string list" where
  "units = [''day'', ''days'', ''week'', ''weeks'', ''month'', ''months'']"

definition unit_stem :: "string \<Rightarrow> string" where
  "unit_stem u = (if u = ''days'' then ''day'' else if u = ''weeks'' then ''week'' else if u = ''months'' then ''month'' else u)"

definition stem_days :: "string \<Rightarrow> int" where
  "stem_days st = (if st = ''day'' then 1 else if st = ''week'' then 7 else 30)"

text \<open>
  A sample environment for closed instances: a clock reading, a database and a transport
  that never fail, fixed renderings, the two entries of \<open>time.Parse\<close> and the two
  zones of the time-zone database that the instances use (New York with its 2024
  daylight-saving period), a case table that changes nothing (the instances hold no
  upper-case letter outside ASCII), and a sample account.
\<close>

definition sampleParse :: "string \<Rightarrow> string \<Rightarrow> clock option" where
  "sampleParse layout v =
     map_of [((''3:04 PM'', ''9:00 AM''), (9, 0)), ((''15:04'', ''14:00''), (14, 0))] (layout, v)"

definition sampleZones :: "string \<Rightarrow> (int \<Rightarrow> int) option" where
  "sampleZones z =
     (if z = ''UTC'' then Some (\<lambda>t. 0)
      else if z = ''America/New_York''
        then Some (\<lambda>t. if 1710054000000000000 \<le> t \<and> t < 1730613600000000000
                         then - 14400 else - 18000)
      else None)"

definition sampleEnv :: "int \<Rightarrow> env" where
  "sampleEnv t =
     \<lparr>now = t, db_error = (\<lambda>q. None), ses_SendEmail = (\<lambda>m. Inr ''ses-0001''),
      RenderWelcomeEmail = (\<lambda>c. Inr (''Welcome to What Did You Get Done This Week?'', c)),
      RenderDailyPromptEmail = (\<lambda>p. Inr (''What did you get done today?'', ''prompt'')),
      RenderClarificationEmail = (\<lambda>m. Inr (''Clarification needed for your journal entry'', m)),
      GenerateVerificationCode = ''123456'', time_Parse = sampleParse,
      LoadLocation = sampleZones, Map_unicode_ToLower = (\<lambda>s. s)\<rparr>"

definition sampleUser :: User where
  "sampleUser =
     \<lparr>uID = 1, uEmail = ''ada@example.org'', uName = ''Ada'', uTimezone = ''America/New_York'',
      uPromptTime = (10, 0), uVerificationCode = None, uIsVerified = True, uIsPaused = False,
      uPauseUntil = None, uProjectFocus = None, uCreatedAt = 0, uUpdatedAt = 0\<rparr>"

definition emptyWorld :: world where
  "emptyWorld =
     \<lparr>users = [], entries = [], email_logs = [], users_id_seq = 0, entries_id_seq = 0,
      email_logs_id_seq = 0, ses_calls = []\<rparr>"

text \<open>
  The key of the unique index \<open>idx_entries_user_date\<close>, the payload of an entry, and
  the assignment of the \<open>DO UPDATE\<close> clause.
\<close>

definition entryKey :: "Entry \<Rightarrow> int \<times> int" where
  "entryKey e = (eUserID e, eEntryDate e)"

definition payloadOf :: "Entry \<Rightarrow> string \<times> string option \<times> string option" where
  "payloadOf e = (eRawContent e, eParsedContent e, eProjectTag e)"

definition overwrite :: "env \<Rightarrow> string \<Rightarrow> string option \<Rightarrow> Entry \<Rightarrow> Entry" where
  "overwrite ev c p e = e\<lparr>eRawContent := c, eParsedContent := Some c, eProjectTag := p, eUpdatedAt := now ev\<rparr>"

text \<open>
  The outbox: one round of the loop of \<open>ProcessOutbox\<close>, the two status updates as
  functions on a row, the messages an invocation hands to the transport, the rows of a
  message that are no longer \<open>pending\<close>, and a sample outbox with one pending message.
\<close>

definition stepOutbox :: "env \<Rightarrow> EmailLog \<Rightarrow> world \<Rightarrow> world" where
  "stepOutbox ev email w =
     (case sendEmail ev email w of
        (Some err, w1) \<Rightarrow> snd (markEmailFailed ev (mID email) err w1)
      | (None, w1) \<Rightarrow> w1)"

definition setSent :: "env \<Rightarrow> string \<Rightarrow> EmailLog \<Rightarrow> EmailLog" where
  "setSent ev messageID m =
     m\<lparr>mStatus := EmailStatusSent, mSESMessageID := Some messageID,
       mSentAt := Some (now ev), mUpdatedAt := now ev\<rparr>"

definition setFailed :: "env \<Rightarrow> string \<Rightarrow> EmailLog \<Rightarrow> EmailLog" where
  "setFailed ev errorMsg m =
     m\<lparr>mStatus := EmailStatusFailed, mErrorMessage := Some errorMsg,
       mRetryCount := mRetryCount m + 1, mUpdatedAt := now ev\<rparr>"

definition attempted :: "env \<Rightarrow> world \<Rightarrow> EmailLog list" where
  "attempted ev w = drop (length (ses_calls w)) (ses_calls (snd (ProcessOutbox ev w)))"

definition sampleMail :: EmailLog where
  "sampleMail =
     newEmailLog (sampleEnv 0) 1 (Some 1) ''ada@example.org'' EmailTypeDailyPrompt
       ''What did you get done today?'' ''prompt'' None"

definition sampleOutbox :: world where
  "sampleOutbox = emptyWorld\<lparr>email_logs := [sampleMail], email_logs_id_seq := 1\<rparr>"

definition settled :: "int \<Rightarrow> world \<Rightarrow> bool" where
  "settled i w = (\<forall>r \<in> set (email_logs w). mID r = i \<longrightarrow> mStatus r \<noteq> ''pending'')"

definition sentUpdateFails :: "stmt \<Rightarrow> string option" where
  "sentUpdateFails q = (case q of UpdateEmailSent i t \<Rightarrow> Some ''connection reset'' | _ \<Rightarrow> None)"

definition updateRow :: "int \<Rightarrow> (EmailLog \<Rightarrow> EmailLog) \<Rightarrow> world \<Rightarrow> world" where
  "updateRow i f w = w\<lparr>email_logs := map (\<lambda>m. if mID m = i then f m else m) (email_logs w)\<rparr>"

text \<open>
  Replies: the commands of a list applied in order while each succeeds, a database that
  rejects every entry upsert, an account that still awaits verification, and a users
  table with the sample account.
\<close>

fun applyAll :: "env \<Rightarrow> User \<Rightarrow> ParsedReply \<Rightarrow> Command list \<Rightarrow> world \<Rightarrow> world option" where
  "applyAll ev user parsed [] w = Some w"
| "applyAll ev user parsed (cmd # cmds) w =
     (case applyCommand ev user parsed cmd w of
        (None, w1) \<Rightarrow> applyAll ev user parsed cmds w1
      | (Some err, w1) \<Rightarrow> None)"

definition entryUpsertFails :: "stmt \<Rightarrow> string option" where
  "entryUpsertFails q = (case q of UpsertEntry u d c p \<Rightarrow> Some ''disk full'' | _ \<Rightarrow> None)"

definition pendingUser :: User where
  "pendingUser = sampleUser\<lparr>uIsVerified := False, uVerificationCode := Some ''123456''\<rparr>"

definition sampleAccounts :: world where
  "sampleAccounts = emptyWorld\<lparr>users := [sampleUser], users_id_seq := 1\<rparr>"

text \<open>
  Preferences: the number of capture groups of a pattern, the part that the three
  labelled patterns share after their label, and a value that is missing or one of the
  placeholders that \<open>parseUserPreferences\<close> tests for.
\<close>

fun ngroups :: "rx list \<Rightarrow> nat" where
  "ngroups [] = 0"
| "ngroups (Lit ci l # r) = ngroups r"
| "ngroups (Alt ci ls cap # r) = (if cap then 1 else 0) + ngroups r"
| "ngroups (Star c cap # r) = (if cap then 1 else 0) + ngroups r"
| "ngroups (Plus c cap # r) = (if cap then 1 else 0) + ngroups r"

definition labelTail :: "rx list" where
  "labelTail = [Star notColon False, Lit True '':'', Star reSpace False, Plus notNewline True]"

definition missingOrPlaceholder :: "rx list \<Rightarrow> string \<Rightarrow> bool" where
  "missingOrPlaceholder re body =
     (case captured re body of None \<Rightarrow> True | Some v \<Rightarrow> isPlaceholder v)"

section \<open>Pause durations\<close>

lemma star_consume:
  "list_all c xs \<Longrightarrow> ys = [] \<or> \<not> c (hd ys) \<Longrightarrow> rx_match r ys = Some (caps, rest) \<Longrightarrow>
   rx_match (Star c cap # r) (xs @ ys) = Some (if cap then xs # caps else caps, rest)"
proof (induction xs)
  case Nil
  then show ?case by (cases ys) auto
next
  case (Cons x xs)
  then show ?case by (cases cap) auto
qed

lemma plus_consume:
  "xs \<noteq> [] \<Longrightarrow> list_all c xs \<Longrightarrow> ys = [] \<or> \<not> c (hd ys) \<Longrightarrow> rx_match r ys = Some (caps, rest) \<Longrightarrow>
   rx_match (Plus c cap # r) (xs @ ys) = Some (if cap then xs # caps else caps, rest)"
proof (cases xs)
  case Nil
  assume "xs \<noteq> []" with Nil show ?thesis by simp
next
  case (Cons x xs')
  assume a: "list_all c xs" "ys = [] \<or> \<not> c (hd ys)" "rx_match r ys = Some (caps, rest)"
  from a(1) Cons have "list_all c xs'" "c x" by auto
  with star_consume[OF this(1) a(2) a(3), of cap] Cons show ?thesis by (cases cap) auto
qed

lemma wrap64_id: "0 \<le> x \<Longrightarrow> x < 2 ^ 63 \<Longrightarrow> wrap64 x = x"
  by (simp add: wrap64_def)

subsection \<open>Trimming and lower-casing\<close>

text \<open>
  What \<open>TrimSpace\<close> and \<open>ToLower\<close> do to an ASCII text between ASCII white space: the
  white space goes and the letters \<open>A\<close>..\<open>Z\<close> become \<open>a\<close>..\<open>z\<close> (\<open>normalise_ascii\<close>).
\<close>

lemma ascii_not_lead:
  "isASCII c \<Longrightarrow> c \<noteq> CHR 0xC2 \<and> c \<noteq> CHR 0xE1 \<and> c \<noteq> CHR 0xE2 \<and> c \<noteq> CHR 0xE3"
  by (auto simp: isASCII_def)

lemma ascii_not_trail:
  "isASCII c \<Longrightarrow> c \<notin> set [CHR 0x85, CHR 0xA0, CHR 0x80, CHR 0x81, CHR 0x82, CHR 0x83, CHR 0x84,
     CHR 0x86, CHR 0x87, CHR 0x88, CHR 0x89, CHR 0x8A, CHR 0xA8, CHR 0xA9, CHR 0xAF, CHR 0x9F]"
  by (auto simp: isASCII_def)

lemma asciiSpace_cases:
  "asciiSpace c \<Longrightarrow> c = CHR 0x09 \<or> c = CHR 0x0A \<or> c = CHR 0x0B \<or> c = CHR 0x0C \<or> c = CHR 0x0D \<or> c = CHR 0x20"
  by (simp add: asciiSpace_def)

lemma find_space: "asciiSpace c \<Longrightarrow> find (HasPrefix (c # s)) spaceRunes = Some [c]"
  by (drule asciiSpace_cases, elim disjE) (simp_all add: spaceRunes_def)

lemma find_space_rev: "asciiSpace c \<Longrightarrow> find (HasPrefix (c # s)) (map rev spaceRunes) = Some [c]"
  by (drule asciiSpace_cases, elim disjE) (simp_all add: spaceRunes_def)

lemma find_stop: "isASCII c \<Longrightarrow> \<not> asciiSpace c \<Longrightarrow> find (HasPrefix (c # s)) spaceRunes = None"
  using ascii_not_lead[of c] by (simp add: asciiSpace_def spaceRunes_def)

lemma find_stop_rev: "isASCII c \<Longrightarrow> \<not> asciiSpace c \<Longrightarrow> find (HasPrefix (c # s)) (map rev spaceRunes) = None"
  using ascii_not_lead[of c] ascii_not_trail[of c] by (simp add: asciiSpace_def spaceRunes_def)

lemma TrimLeft_space:
  assumes "find (HasPrefix (c # s)) es = Some [c]"
  shows "TrimLeftFunc es (c # s) = TrimLeftFunc es s"
  by (subst TrimLeftFunc.simps) (simp add: assms del: TrimLeftFunc.simps)

lemma TrimLeft_stop:
  assumes "find (HasPrefix s) es = None"
  shows "TrimLeftFunc es s = s"
  by (subst TrimLeftFunc.simps) (simp add: assms del: TrimLeftFunc.simps)

lemma TrimLeft_spaces: "list_all asciiSpace pre \<Longrightarrow> TrimLeftFunc spaceRunes (pre @ s) = TrimLeftFunc spaceRunes s"
  by (induction pre) (simp_all add: TrimLeft_space find_space del: TrimLeftFunc.simps)

lemma TrimRight_spaces: "list_all asciiSpace pre \<Longrightarrow> TrimLeftFunc (map rev spaceRunes) (pre @ s) = TrimLeftFunc (map rev spaceRunes) s"
  by (induction pre) (simp_all add: TrimLeft_space find_space_rev del: TrimLeftFunc.simps)

lemma TrimLeft_nil: "TrimLeftFunc es [] = []"
  by (subst TrimLeftFunc.simps) (simp split: option.splits del: TrimLeftFunc.simps)

lemma TrimSpace_ascii:
  assumes "list_all asciiSpace pre" "list_all asciiSpace post" "p \<noteq> []"
    and "isASCII (hd p)" "\<not> asciiSpace (hd p)" "isASCII (last p)" "\<not> asciiSpace (last p)"
  shows "TrimSpace (pre @ p @ post) = p"
proof -
  obtain c cs where p: "p = c # cs" using assms(3) by (cases p) auto
  obtain ds where r: "rev p = last p # ds" using assms(3) by (cases p rule: rev_cases) auto
  have "TrimLeftFunc spaceRunes (p @ post) = p @ post"
    using TrimLeft_stop[OF find_stop, of c "cs @ post"] assms(4,5) p by simp
  then have 1: "TrimLeftFunc spaceRunes (pre @ p @ post) = p @ post"
    using TrimLeft_spaces[OF assms(1)] by simp
  have "list_all asciiSpace (rev post)" using assms(2) by (simp add: list_all_iff)
  then have "TrimLeftFunc (map rev spaceRunes) (rev post @ rev p) = TrimLeftFunc (map rev spaceRunes) (rev p)"
    by (rule TrimRight_spaces)
  also have "\<dots> = rev p"
    unfolding r by (rule TrimLeft_stop[OF find_stop_rev[OF assms(6,7)]])
  finally have 2: "TrimLeftFunc (map rev spaceRunes) (rev post @ rev p) = rev p" .
  show ?thesis by (simp add: TrimSpace_def 1 2 del: TrimLeftFunc.simps)
qed

lemma TrimSpace_blank: "list_all asciiSpace s \<Longrightarrow> TrimSpace s = []"
  using TrimLeft_spaces[of s "[]"] by (simp add: TrimSpace_def TrimLeft_nil del: TrimLeftFunc.simps)

lemma ToLower_ascii: "list_all isASCII s \<Longrightarrow> ToLower ev s = map lowerc s"
  by (simp add: ToLower_def)

lemma ToLower_unicode: "\<not> list_all isASCII s \<Longrightarrow> ToLower ev s = Map_unicode_ToLower ev s"
  by (simp add: ToLower_def)

lemma lowerc_cases: "lowerc c = c \<or> c \<in> set ''ABCDEFGHIJKLMNOPQRSTUVWXYZ''"
  by (simp add: lowerc_def)

lemma normalise_ascii:
  assumes "list_all asciiSpace pre" "list_all asciiSpace post" "list_all isASCII p" "p \<noteq> []"
    and "\<not> asciiSpace (hd p)" "\<not> asciiSpace (last p)"
  shows "ToLower ev (TrimSpace (pre @ p @ post)) = map lowerc p"
proof -
  have "isASCII (hd p)" "isASCII (last p)" using assms(3,4) by (auto simp: list_all_iff)
  then have "TrimSpace (pre @ p @ post) = p"
    using TrimSpace_ascii[OF assms(1,2,4) _ assms(5) _ assms(6)] by simp
  then show ?thesis using assms(3) by (simp add: ToLower_ascii)
qed

lemma nbsp_trimmed:
  "TrimSpace ([CHR 0xC2, CHR 0xA0] @ ''Today'' @ [CHR 0xE2, CHR 0x80, CHR 0xA8, CHR 0x0A]) = ''Today''"
  by code_simp

subsection \<open>The duration pattern\<close>

lemma digit_not_space: "isDigit c \<Longrightarrow> \<not> reSpace c"
  by (auto simp: isDigit_def reSpace_def)

lemma units_cases:
  "u \<in> set units \<Longrightarrow> u = ''day'' \<or> u = ''days'' \<or> u = ''week'' \<or> u = ''weeks'' \<or> u = ''month'' \<or> u = ''months''"
  by (simp add: units_def)

lemma alt_unit:
  assumes "u \<in> set units"
  shows "rx_match [Alt False units True] u = Some ([unit_stem u], drop (length (unit_stem u)) u)"
  using units_cases[OF assms] unfolding units_def
  by (elim disjE) (simp_all add: lit_strip_def unit_stem_def)

lemma unit_props: "u \<in> set units \<Longrightarrow> u \<noteq> [] \<and> \<not> reSpace (hd u) \<and> \<not> isDigit (hd u)"
  unfolding units_def by (auto simp: reSpace_def isDigit_def)

lemma stem_cases: "u \<in> set units \<Longrightarrow> unit_stem u = ''day'' \<or> unit_stem u = ''week'' \<or> unit_stem u = ''month''"
  using units_cases[of u] by (auto simp: unit_stem_def)

lemma match_number_unit:
  assumes "ds \<noteq> []" "list_all isDigit ds" "list_all reSpace ws" "u \<in> set units"
  shows "rx_match durationRegex (ds @ ws @ u) = Some ([ds, unit_stem u], drop (length (unit_stem u)) u)"
proof -
  have u: "u \<noteq> []" "\<not> reSpace (hd u)" using unit_props[OF assms(4)] by auto
  have 1: "rx_match [Star reSpace False, Alt False units True] (ws @ u)
        = Some ([unit_stem u], drop (length (unit_stem u)) u)"
    using star_consume[OF assms(3) _ alt_unit[OF assms(4)], of False] u by simp
  have 2: "ws @ u = [] \<or> \<not> isDigit (hd (ws @ u))"
    using assms(3) u unit_props[OF assms(4)] digit_not_space by (cases ws) auto
  show ?thesis
    unfolding durationRegex_def units_def[symmetric]
    using plus_consume[OF assms(1) assms(2) 2 1, of True] by simp
qed

lemma find_number_unit:
  assumes "ds \<noteq> []" "list_all isDigit ds" "list_all reSpace ws" "u \<in> set units"
  shows "\<exists>m. FindStringSubmatch durationRegex (ds @ ws @ u) = [m, ds, unit_stem u]"
proof -
  obtain d ds' where d: "ds = d # ds'" using assms(1) by (cases ds) auto
  show ?thesis
    using match_number_unit[OF assms]
    by (simp add: d FindStringSubmatch_def submatches_def)
qed

lemma digit_val_nonneg: "0 \<le> digit_val c"
  by (simp add: digit_val_def split: option.splits)

lemma dec_val_nonneg: "0 \<le> acc \<Longrightarrow> 0 \<le> dec_val acc ds"
  by (induction ds arbitrary: acc) (auto simp: digit_val_nonneg)

lemma Atoi_digits:
  "ds \<noteq> [] \<Longrightarrow> list_all isDigit ds \<Longrightarrow> dec_val 0 ds < 2 ^ 63 \<Longrightarrow> Atoi ds = Inr (dec_val 0 ds)"
  by (simp add: Atoi_def)

lemma digit_head_literals:
  assumes "s \<noteq> []" "isDigit (hd s)"
  shows "s \<noteq> ''today'' \<and> s \<noteq> ''tomorrow'' \<and> s \<noteq> ''this week'' \<and> s \<noteq> ''next week''
       \<and> s \<noteq> ''this month'' \<and> s \<noteq> ''next month''"
  using assms by (auto simp: isDigit_def)

lemma wrap64_mod: "wrap64 a mod 2 ^ 64 = a mod 2 ^ 64"
  by (simp add: wrap64_def mod_diff_left_eq)

lemma wrap64_mult_left: "wrap64 (wrap64 a * b) = wrap64 (a * b)"
proof -
  have "(wrap64 a * b + 2 ^ 63) mod 2 ^ 64 = (a * b + 2 ^ 63) mod 2 ^ 64"
    by (metis wrap64_mod mod_mult_left_eq mod_add_left_eq)
  then show ?thesis by (simp add: wrap64_def)
qed

lemma dur3: "0 \<le> n * k * (24 * Hour) \<Longrightarrow> n * k * (24 * Hour) < 2 ^ 63 \<Longrightarrow>
   dur_mul (dur_mul (dur_mul n k) 24) Hour = n * k * (24 * Hour)"
  by (simp add: dur_mul_def wrap64_mult_left wrap64_id mult.assoc)

lemma dur2: "0 \<le> n * (24 * Hour) \<Longrightarrow> n * (24 * Hour) < 2 ^ 63 \<Longrightarrow>
   dur_mul (dur_mul n 24) Hour = n * (24 * Hour)"
  by (simp add: dur_mul_def wrap64_mult_left wrap64_id mult.assoc)

subsection \<open>\<open>parsePauseDuration\<close>\<close>

lemma literal_phrases:
  "ToLower ev (TrimSpace s) = ''today'' \<Longrightarrow> parsePauseDuration ev s = Inr (24 * Hour)"
  "ToLower ev (TrimSpace s) = ''tomorrow'' \<Longrightarrow> parsePauseDuration ev s = Inr (24 * Hour)"
  "ToLower ev (TrimSpace s) = ''this week'' \<Longrightarrow> parsePauseDuration ev s = Inr (7 * (24 * Hour))"
  "ToLower ev (TrimSpace s) = ''next week'' \<Longrightarrow> parsePauseDuration ev s = Inr (7 * (24 * Hour))"
  "ToLower ev (TrimSpace s) = ''this month'' \<Longrightarrow> parsePauseDuration ev s = Inr (30 * (24 * Hour))"
  "ToLower ev (TrimSpace s) = ''next month'' \<Longrightarrow> parsePauseDuration ev s = Inr (30 * (24 * Hour))"
  "ToLower ev (TrimSpace s) = ''1 week'' \<Longrightarrow> parsePauseDuration ev s = Inr (7 * (24 * Hour))"
  "ToLower ev (TrimSpace s) = ''1 month'' \<Longrightarrow> parsePauseDuration ev s = Inr (30 * (24 * Hour))"
  by (simp_all add: parsePauseDuration_def dur_mul_def wrap64_def Hour_def)

lemma find_1_week:
  "FindStringSubmatch durationRegex ''1 week'' = [''1 week'', ''1'', ''week'']"
  "FindStringSubmatch durationRegex ''1 month'' = [''1 month'', ''1'', ''month'']"
  by (simp_all add: FindStringSubmatch_def durationRegex_def submatches_def lit_strip_def
        isDigit_def reSpace_def)

lemma parse_number_unit:
  assumes ds: "ds \<noteq> []" "list_all isDigit ds" and ws: "list_all reSpace ws"
    and u: "u \<in> set units"
    and bound: "dec_val 0 ds * stem_days (unit_stem u) * (24 * Hour) < 2 ^ 63"
    and norm: "ToLower ev (TrimSpace s) = ds @ ws @ u"
  shows "parsePauseDuration ev s = Inr (dec_val 0 ds * stem_days (unit_stem u) * (24 * Hour))"
proof -
  let ?s = "ds @ ws @ u" and ?n = "dec_val 0 ds" and ?k = "stem_days (unit_stem u)"
  obtain m where f: "FindStringSubmatch durationRegex ?s = [m, ds, unit_stem u]"
    using find_number_unit[OF ds ws u] by blast
  have k: "1 \<le> ?k" by (simp add: stem_days_def)
  have n0: "0 \<le> ?n" using ds(2) dec_val_nonneg[of 0 ds] by simp
  have nk: "0 \<le> ?n * ?k" using k n0 by simp
  have pos: "0 \<le> ?n * ?k * (24 * Hour)" using nk by (simp add: Hour_def)
  have "?n * 1 \<le> ?n * (?k * (24 * Hour))"
    using k n0 by (intro mult_left_mono) (auto simp: Hour_def)
  then have "?n \<le> ?n * ?k * (24 * Hour)" by (simp only: mult.assoc mult_1_right)
  then have n63: "?n < 2 ^ 63" using bound by linarith
  have atoi: "Atoi ds = Inr ?n" by (rule Atoi_digits[OF ds n63])
  have "hd ?s = hd ds" using ds by simp
  moreover have "isDigit (hd ds)" using ds by (cases ds) auto
  ultimately have nl: "?s \<noteq> ''today''" "?s \<noteq> ''tomorrow''" "?s \<noteq> ''this week''"
    "?s \<noteq> ''next week''" "?s \<noteq> ''this month''" "?s \<noteq> ''next month''"
    using digit_head_literals[of ?s] ds by auto
  consider (w) "?s = ''1 week''" | (m) "?s = ''1 month''"
    | (g) "?s \<noteq> ''1 week''" "?s \<noteq> ''1 month''" by blast
  then show ?thesis
  proof cases
    case w
    with f find_1_week(1) have "ds = ''1''" "unit_stem u = ''week''" by auto
    then have "?n * ?k * (24 * Hour) = 7 * (24 * Hour)" by (simp add: stem_days_def digit_val_def)
    then show ?thesis using w literal_phrases(7)[of ev s] norm by simp
  next
    case m
    with f find_1_week(2) have "ds = ''1''" "unit_stem u = ''month''" by auto
    then have "?n * ?k * (24 * Hour) = 30 * (24 * Hour)" by (simp add: stem_days_def digit_val_def)
    then show ?thesis using m literal_phrases(8)[of ev s] norm by simp
  next
    case g
    have d2: "dur_mul (dur_mul ?n 24) Hour = ?n * (24 * Hour)"
      if "?k = 1" using dur2[of ?n] pos bound that by simp
    have d3: "dur_mul (dur_mul (dur_mul ?n ?k) 24) Hour = ?n * ?k * (24 * Hour)"
      by (rule dur3[OF pos bound])
    from stem_cases[OF u] show ?thesis
    proof (elim disjE)
      assume st: "unit_stem u = ''day''"
      then have "?k = 1" by (simp add: stem_days_def)
      then show ?thesis using d2 st
        by (simp add: parsePauseDuration_def Let_def norm nl g f atoi)
    next
      assume st: "unit_stem u = ''week''"
      then have "?k = 7" by (simp add: stem_days_def)
      then show ?thesis using d3 st
        by (simp add: parsePauseDuration_def Let_def norm nl g f atoi)
    next
      assume st: "unit_stem u = ''month''"
      then have "?k = 30" by (simp add: stem_days_def)
      then show ?thesis using d3 st
        by (simp add: parsePauseDuration_def Let_def norm nl g f atoi)
    qed
  qed
qed

lemma parse_no_occurrence:
  assumes "ToLower ev (TrimSpace s) \<notin> set [''today'', ''tomorrow'', ''this week'', ''1 week'',
             ''next week'', ''this month'', ''1 month'', ''next month'']"
    and "rx_find durationRegex (ToLower ev (TrimSpace s)) = None"
  shows "isl (parsePauseDuration ev s)"
  using assms by (simp add: parsePauseDuration_def Let_def FindStringSubmatch_def)

text \<open>
  Lower-casing outside ASCII: Unicode maps the Kelvin sign U+212A to \<open>k\<close>, so with the
  case table of Unicode the text \<open>next wee\<close> followed by that sign is the phrase
  \<open>next week\<close>.
\<close>

lemma kelvin_sign_lower_cased:
  assumes "Map_unicode_ToLower ev (''next wee'' @ [CHR 0xE2, CHR 0x84, CHR 0xAA]) = ''next week''"
  shows "parsePauseDuration ev (''next wee'' @ [CHR 0xE2, CHR 0x84, CHR 0xAA])
           = Inr (7 * (24 * Hour))"
proof -
  have t: "TrimSpace (''next wee'' @ [CHR 0xE2, CHR 0x84, CHR 0xAA])
             = ''next wee'' @ [CHR 0xE2, CHR 0x84, CHR 0xAA]"
    by code_simp
  have n: "\<not> list_all isASCII (''next wee'' @ [CHR 0xE2, CHR 0x84, CHR 0xAA])"
    by (simp add: isASCII_def)
  have "ToLower ev (TrimSpace (''next wee'' @ [CHR 0xE2, CHR 0x84, CHR 0xAA])) = ''next week''"
    unfolding t ToLower_unicode[OF n] by (rule assms)
  then show ?thesis
    by (simp add: parsePauseDuration_def dur_mul_def wrap64_def Hour_def)
qed

text \<open>
  A number too large for the 64-bit nanosecond count wraps around: 200000 days come out
  negative.
\<close>

lemma parsePauseDuration_wraps:
  "parsePauseDuration (sampleEnv 0) ''200000 days'' = Inr (- 1166744073709551616)"
  by code_simp

text \<open>
  Claim C6, as stated, fails: it says that every text other than the six phrases and
  a number followed by a unit is rejected. The pattern is searched anywhere in the text,
  so a text that merely contains a number and a unit is accepted.
\<close>

theorem parsePauseDuration_counterexample:
  "parsePauseDuration (sampleEnv 0) ''about 2 weeks'' = Inr (14 * (24 * Hour))"
  by code_simp

text \<open>
  Claim C6, amended. The text is first trimmed of its leading and trailing white space
  and lower-cased; \<open>ToLower ev (TrimSpace s)\<close> is that normal form of the text \<open>s\<close>. When
  the normal form is one of the six phrases, the result is 1, 1, 7, 7, 30 and 30 days;
  when it is a decimal number, optional white space and a unit word, the result is the
  number times 1, 7 or 30 days, as long as that many nanoseconds fit the signed 64-bit
  \<open>time.Duration\<close>; and when it is none of the phrases (nor \<open>1 week\<close>, \<open>1 month\<close>) and no
  number followed by a unit word occurs in it, the result is an error.
\<close>

theorem parsePauseDuration_grammar:
  "(ToLower ev (TrimSpace s) = ''today'' \<longrightarrow> parsePauseDuration ev s = Inr (24 * Hour)) \<and>
   (ToLower ev (TrimSpace s) = ''tomorrow'' \<longrightarrow> parsePauseDuration ev s = Inr (24 * Hour)) \<and>
   (ToLower ev (TrimSpace s) = ''this week'' \<longrightarrow>
      parsePauseDuration ev s = Inr (7 * (24 * Hour))) \<and>
   (ToLower ev (TrimSpace s) = ''next week'' \<longrightarrow>
      parsePauseDuration ev s = Inr (7 * (24 * Hour))) \<and>
   (ToLower ev (TrimSpace s) = ''this month'' \<longrightarrow>
      parsePauseDuration ev s = Inr (30 * (24 * Hour))) \<and>
   (ToLower ev (TrimSpace s) = ''next month'' \<longrightarrow>
      parsePauseDuration ev s = Inr (30 * (24 * Hour))) \<and>
   (\<forall>ds ws u k.
      ToLower ev (TrimSpace s) = ds @ ws @ u \<and>
      ds \<noteq> [] \<and> list_all isDigit ds \<and> list_all reSpace ws \<and>
      (u, k) \<in> set [(''day'', 1), (''days'', 1), (''week'', 7), (''weeks'', 7),
                     (''month'', 30), (''months'', 30)] \<and>
      dec_val 0 ds * k * (24 * Hour) < 2 ^ 63 \<longrightarrow>
      parsePauseDuration ev s = Inr (dec_val 0 ds * k * (24 * Hour))) \<and>
   (ToLower ev (TrimSpace s) \<notin> set [''today'', ''tomorrow'', ''this week'', ''1 week'',
        ''next week'', ''this month'', ''1 month'', ''next month''] \<and>
    rx_find durationRegex (ToLower ev (TrimSpace s)) = None \<longrightarrow>
      (\<exists>err. parsePauseDuration ev s = Inl err))"
proof -
  have nu: "parsePauseDuration ev s = Inr (dec_val 0 ds * k * (24 * Hour))"
    if n: "ToLower ev (TrimSpace s) = ds @ ws @ u"
      and h: "ds \<noteq> []" "list_all isDigit ds" "list_all reSpace ws"
      "(u, k) \<in> set [(''day'', 1), (''days'', 1), (''week'', 7), (''weeks'', 7),
                     (''month'', 30), (''months'', 30)]"
      "dec_val 0 ds * k * (24 * Hour) < 2 ^ 63"
    for ds ws u and k :: int
  proof -
    from h(4) have uk: "u \<in> set units" "stem_days (unit_stem u) = k"
      by (auto simp: units_def unit_stem_def stem_days_def)
    show ?thesis
      using parse_number_unit[OF h(1) h(2) h(3) uk(1) _ n] h(5) uk(2) by simp
  qed
  have no: "\<exists>err. parsePauseDuration ev s = Inl err"
    if "ToLower ev (TrimSpace s) \<notin> set [''today'', ''tomorrow'', ''this week'', ''1 week'',
             ''next week'', ''this month'', ''1 month'', ''next month'']"
       "rx_find durationRegex (ToLower ev (TrimSpace s)) = None"
    using parse_no_occurrence[OF that] by (cases "parsePauseDuration ev s") auto
  show ?thesis
    using literal_phrases(1-6)[of ev s] nu no by blast
qed

theorem parsePauseDuration_grammar_witness:
  "ToLower (sampleEnv 0) (TrimSpace ([CHR 0xC2, CHR 0xA0] @ ''Today'' @ [CHR 0x0A])) = ''today'' \<and>
   parsePauseDuration (sampleEnv 0) ([CHR 0xC2, CHR 0xA0] @ ''Today'' @ [CHR 0x0A])
     = Inr (24 * Hour) \<and>
   ToLower (sampleEnv 0) (TrimSpace ''  2 Weeks '') = ''2'' @ '' '' @ ''weeks'' \<and>
   parsePauseDuration (sampleEnv 0) ''  2 Weeks '' = Inr (14 * (24 * Hour)) \<and>
   rx_find durationRegex (ToLower (sampleEnv 0) (TrimSpace ''Soon'')) = None \<and>
   (\<exists>err. parsePauseDuration (sampleEnv 0) ''Soon'' = Inl err)"
proof -
  let ?ev = "sampleEnv 0"
  let ?t = "[CHR 0xC2, CHR 0xA0] @ ''Today'' @ [CHR 0x0A]"
  have t: "ToLower ?ev (TrimSpace ?t) = ''today''" by code_simp
  have n: "ToLower ?ev (TrimSpace ''  2 Weeks '') = ''2'' @ '' '' @ ''weeks''" by code_simp
  have a: "''2'' \<noteq> [] \<and> list_all isDigit ''2'' \<and> list_all reSpace '' '' \<and>
      (''weeks'', 7::int) \<in> set [(''day'', 1), (''days'', 1), (''week'', 7), (''weeks'', 7),
                     (''month'', 30), (''months'', 30)] \<and>
      dec_val 0 ''2'' * 7 * (24 * Hour) < 2 ^ 63"
    by (simp add: isDigit_def reSpace_def digit_val_def Hour_def)
  have s: "ToLower ?ev (TrimSpace ''Soon'') = ''soon''" by code_simp
  have b: "ToLower ?ev (TrimSpace ''Soon'') \<notin> set [''today'', ''tomorrow'', ''this week'',
             ''1 week'', ''next week'', ''this month'', ''1 month'', ''next month''] \<and>
        rx_find durationRegex (ToLower ?ev (TrimSpace ''Soon'')) = None"
    unfolding s by (simp add: durationRegex_def isDigit_def)
  from parsePauseDuration_grammar[of ?ev ?t] t
  have 1: "parsePauseDuration ?ev ?t = Inr (24 * Hour)" by blast
  from parsePauseDuration_grammar[of ?ev "''  2 Weeks ''"] have
    "ToLower ?ev (TrimSpace ''  2 Weeks '') = ds @ ws @ u \<and>
      ds \<noteq> [] \<and> list_all isDigit ds \<and> list_all reSpace ws \<and>
      (u, k) \<in> set [(''day'', 1), (''days'', 1), (''week'', 7), (''weeks'', 7),
                     (''month'', 30), (''months'', 30)] \<and>
      dec_val 0 ds * k * (24 * Hour) < 2 ^ 63 \<longrightarrow>
      parsePauseDuration ?ev ''  2 Weeks '' = Inr (dec_val 0 ds * k * (24 * Hour))" for ds ws u k
    by blast
  from this[of "''2''" "'' ''" "''weeks''" 7] a n
  have 2: "parsePauseDuration ?ev ''  2 Weeks '' = Inr (14 * (24 * Hour))"
    by (simp add: digit_val_def)
  from parsePauseDuration_grammar[of ?ev "''Soon''"] b
  have 3: "\<exists>err. parsePauseDuration ?ev ''Soon'' = Inl err"
    by blast
  from t 1 n 2 b 3 show ?thesis by blast
qed
section \<open>Daily prompt selection\<close>

lemma shouldSendPrompt_scan [simp]:
  "shouldSendPrompt ev (scanUser u) h = shouldSendPrompt ev u h"
  by (simp add: shouldSendPrompt_def scanUser_def Let_def split: option.splits)

lemma promptedUsers_eq:
  "promptedUsers ev w =
     (case db_error ev (QueryUsersForDailyPrompt (utcHour (now ev))) of
        Some err \<Rightarrow> []
      | None \<Rightarrow> map scanUser
          (filter (\<lambda>u. promptQuery ev (utcHour (now ev)) u
                       \<and> shouldSendPrompt ev u (utcHour (now ev))) (users w)))"
  by (simp add: promptedUsers_def GetUsersForDailyPrompt_def Let_def filter_map o_def
      split: option.splits)

lemma promptLoop_fold:
  "promptLoop ev h us w =
     fold (\<lambda>u w. snd (SendDailyPrompt ev (uID u) (uEmail u) (uProjectFocus u) w))
       (filter (\<lambda>u. shouldSendPrompt ev u h) us) w"
  by (induction us arbitrary: w) auto

lemma sendDailyPrompts_prompted:
  "snd (sendDailyPrompts ev w) =
     fold (\<lambda>u w. snd (SendDailyPrompt ev (uID u) (uEmail u) (uProjectFocus u) w))
       (promptedUsers ev w) w"
  by (simp add: sendDailyPrompts_def promptedUsers_def Let_def promptLoop_fold split: sum.splits)

lemma prompted_needs_utc_hour:
  assumes "p \<in> set (promptedUsers ev w)"
  shows "\<exists>u \<in> set (users w). p = scanUser u \<and> uIsVerified u \<and>
           fst (uPromptTime u) = utcHour (now ev) \<and> shouldSendPrompt ev u (utcHour (now ev))"
  using assms by (auto simp: promptedUsers_eq promptQuery_def split: option.splits)

text \<open>
  Claim C1: the prompt selection should pick an account exactly when the hour of the
  clock in the account's own zone equals its preferred prompt hour. The query of
  \<open>GetUsersForDailyPrompt\<close> compares the preferred hour with the UTC hour as well. On
  1 July 2024 at 14:00 UTC it is 10:00 in New York; an active account there that asked
  for 10:00 passes the local-hour test of \<open>shouldSendPrompt\<close> and is still not
  selected.
\<close>

theorem daily_prompt_skips_local_hour:
  "uIsVerified sampleUser \<and> \<not> uIsPaused sampleUser \<and>
   uTimezone sampleUser = ''America/New_York'' \<and> fst (uPromptTime sampleUser) = 10 \<and>
   utcHour (now (sampleEnv 1719842400000000000)) = 14 \<and>
   shouldSendPrompt (sampleEnv 1719842400000000000) sampleUser 14 \<and>
   promptedUsers (sampleEnv 1719842400000000000) (emptyWorld\<lparr>users := [sampleUser]\<rparr>) = []"
  by (simp add: promptedUsers_eq promptQuery_def shouldSendPrompt_def sampleUser_def sampleEnv_def
        sampleZones_def utcHour_def Hour_def emptyWorld_def)

text \<open>
  Claim C9: an account with \<open>verified = false\<close> is never selected for the daily prompt,
  at any instant: it is neither among the rows of \<open>GetUsersForDailyPrompt\<close> nor among
  the accounts \<open>sendDailyPrompts\<close> issues a prompt for. Accounts are told apart by
  their primary key.
\<close>

theorem unverified_never_prompted:
  assumes "distinct (map uID (users w))" and "u \<in> set (users w)" and "\<not> uIsVerified u"
  shows "(\<forall>h us. GetUsersForDailyPrompt ev h w = Inr us \<longrightarrow> uID u \<notin> uID ` set us) \<and>
         uID u \<notin> uID ` set (promptedUsers ev w)"
proof -
  have key: "uID u \<notin> uID ` set (filter P (users w))" if "\<And>v. P v \<Longrightarrow> uIsVerified v" for P
  proof
    assume "uID u \<in> uID ` set (filter P (users w))"
    then obtain v where v: "v \<in> set (users w)" "P v" "uID v = uID u" by auto
    with assms(1,2) have "v = u" by (meson distinct_map inj_onD)
    with v that assms(3) show False by auto
  qed
  have ids: "uID ` set (map scanUser xs) = uID ` set xs" for xs
    by (auto simp: scanUser_def image_iff)
  have k1: "uID u \<notin> uID ` set (filter (promptQuery ev h) (users w))" for h
    by (rule key) (simp add: promptQuery_def)
  have k2: "uID u \<notin> uID ` set (filter (\<lambda>u. promptQuery ev (utcHour (now ev)) u
                       \<and> shouldSendPrompt ev u (utcHour (now ev))) (users w))"
    by (rule key) (simp add: promptQuery_def)
  have a: "uID u \<notin> uID ` set us" if "GetUsersForDailyPrompt ev h w = Inr us" for h us
  proof -
    from that have "us = map scanUser (filter (promptQuery ev h) (users w))"
      by (simp add: GetUsersForDailyPrompt_def split: option.splits)
    then show ?thesis using k1[of h] ids by metis
  qed
  have b: "uID u \<notin> uID ` set (promptedUsers ev w)"
  proof (cases "db_error ev (QueryUsersForDailyPrompt (utcHour (now ev)))")
    case None
    then show ?thesis using k2 ids by (simp only: promptedUsers_eq option.case) metis
  next
    case (Some err)
    then show ?thesis by (simp add: promptedUsers_eq)
  qed
  from a b show ?thesis by blast
qed

theorem unverified_never_prompted_witness:
  "distinct (map uID (users (emptyWorld\<lparr>users := [sampleUser\<lparr>uIsVerified := False\<rparr>]\<rparr>))) \<and>
   sampleUser\<lparr>uIsVerified := False\<rparr> \<in> set (users (emptyWorld\<lparr>users := [sampleUser\<lparr>uIsVerified := False\<rparr>]\<rparr>)) \<and>
   \<not> uIsVerified (sampleUser\<lparr>uIsVerified := False\<rparr>) \<and>
   GetUsersForDailyPrompt (sampleEnv 1719842400000000000) 10
     (emptyWorld\<lparr>users := [sampleUser\<lparr>uIsVerified := False\<rparr>]\<rparr>) = Inr [] \<and>
   1 \<notin> uID ` set (promptedUsers (sampleEnv 1719842400000000000)
     (emptyWorld\<lparr>users := [sampleUser\<lparr>uIsVerified := False\<rparr>]\<rparr>))"
proof -
  let ?u = "sampleUser\<lparr>uIsVerified := False\<rparr>"
  let ?w = "emptyWorld\<lparr>users := [?u]\<rparr>"
  have h: "distinct (map uID (users ?w))" "?u \<in> set (users ?w)" "\<not> uIsVerified ?u"
    by (simp_all add: emptyWorld_def)
  have g: "GetUsersForDailyPrompt (sampleEnv 1719842400000000000) 10 ?w = Inr []"
    by (simp add: GetUsersForDailyPrompt_def sampleEnv_def promptQuery_def emptyWorld_def)
  from unverified_never_prompted[OF h, of "sampleEnv 1719842400000000000"]
  have "uID ?u \<notin> uID ` set (promptedUsers (sampleEnv 1719842400000000000) ?w)" by blast
  moreover have "uID ?u = 1" by (simp add: sampleUser_def)
  ultimately show ?thesis using h g by simp
qed

section \<open>Journal entries\<close>

lemma sameKey_entryKey: "sameKey uid d e = (entryKey e = (uid, d))"
  by (auto simp: sameKey_def entryKey_def)

lemma upsert_entries:
  "entries (upsertEntry ev uid d c p w) =
     (if list_ex (sameKey uid d) (entries w)
      then map (\<lambda>e. if sameKey uid d e then overwrite ev c p e else e) (entries w)
      else entries w @
           [\<lparr>eID = entries_id_seq w + 1, eUserID = uid, eEntryDate = d,
             eRawContent = c, eParsedContent = Some c,
             eProjectTag = p, eCreatedAt = now ev, eUpdatedAt = now ev\<rparr>])"
  by (simp add: upsertEntry_def overwrite_def)

lemma key_overwrite: "entryKey (if sameKey uid d e then overwrite ev c p e else e) = entryKey e"
  by (simp add: entryKey_def overwrite_def)

lemma upsert_keys:
  "map entryKey (entries (upsertEntry ev uid d c p w)) =
     (if list_ex (sameKey uid d) (entries w) then map entryKey (entries w)
      else map entryKey (entries w) @ [(uid, d)])"
  by (simp add: upsert_entries o_def key_overwrite) (simp add: entryKey_def)

lemma upsert_distinct:
  assumes "distinct (map entryKey (entries w))"
  shows "distinct (map entryKey (entries (upsertEntry ev uid d c p w)))"
proof (cases "list_ex (sameKey uid d) (entries w)")
  case True
  then show ?thesis using assms by (simp only: upsert_keys if_True)
next
  case False
  then have "(uid, d) \<notin> set (map entryKey (entries w))"
    by (auto simp: list_ex_iff sameKey_entryKey)
  then show ?thesis using assms False by (simp only: upsert_keys if_False distinct_append) auto
qed

lemma sameKey_overwrite: "sameKey uid d (overwrite ev c p e) = sameKey uid d e"
  by (simp add: sameKey_def overwrite_def)

lemma payload_overwrite: "payloadOf (overwrite ev c p e) = (c, Some c, p)"
  by (simp add: payloadOf_def overwrite_def)

lemma upsert_payload:
  assumes "e \<in> set (entries (upsertEntry ev uid d c p w))" "sameKey uid d e"
  shows "payloadOf e = (c, Some c, p)"
proof (cases "list_ex (sameKey uid d) (entries w)")
  case True
  with assms(1) obtain e0 where e0: "e0 \<in> set (entries w)"
      "e = (if sameKey uid d e0 then overwrite ev c p e0 else e0)"
    by (auto simp: upsert_entries)
  show ?thesis
  proof (cases "sameKey uid d e0")
    case True
    with e0 show ?thesis by (simp add: payload_overwrite)
  next
    case False
    with e0 assms(2) show ?thesis by simp
  qed
next
  case False
  with assms have "e \<in> set (entries w) \<or> e = \<lparr>eID = entries_id_seq w + 1, eUserID = uid, eEntryDate = d,
             eRawContent = c, eParsedContent = Some c,
             eProjectTag = p, eCreatedAt = now ev, eUpdatedAt = now ev\<rparr>"
    by (auto simp: upsert_entries)
  then show ?thesis
  proof
    assume "e \<in> set (entries w)"
    with False assms(2) show ?thesis by (auto simp: list_ex_iff)
  next
    assume "e = \<lparr>eID = entries_id_seq w + 1, eUserID = uid, eEntryDate = d,
             eRawContent = c, eParsedContent = Some c,
             eProjectTag = p, eCreatedAt = now ev, eUpdatedAt = now ev\<rparr>"
    then show ?thesis by (simp add: payloadOf_def)
  qed
qed

lemma sameKey_fun: "sameKey uid d = (\<lambda>e. entryKey e = (uid, d))"
  by (rule ext) (simp add: sameKey_entryKey)

lemma list_ex_key: "list_ex (sameKey uid d) es = ((uid, d) \<in> set (map entryKey es))"
  by (auto simp: list_ex_iff sameKey_entryKey intro: rev_image_eqI)

lemma upsert_present:
  "list_ex (sameKey uid d) (entries (upsertEntry ev uid d c p w))"
proof (cases "list_ex (sameKey uid d) (entries w)")
  case True
  then show ?thesis by (simp only: list_ex_key upsert_keys if_True)
next
  case False
  then show ?thesis by (simp only: list_ex_key upsert_keys if_False) simp
qed

lemma distinct_key_filter:
  "distinct (map f xs) \<Longrightarrow> length (filter (\<lambda>x. f x = k) xs) \<le> 1"
  by (induction xs) (auto simp: filter_empty_conv image_iff)

lemma saveEntry_ok:
  "saveEntry ev uid c p w = (None, w1) \<Longrightarrow> w1 = upsertEntry ev uid (utcDay (now ev)) c p w"
  by (auto simp: saveEntry_def ExecContext_def Let_def split: option.splits)

lemma one_row:
  assumes "distinct (map entryKey (entries w))"
  shows "\<exists>e. filter (sameKey uid d) (entries (upsertEntry ev uid d c p w)) = [e]
           \<and> payloadOf e = (c, Some c, p)"
proof -
  let ?es = "entries (upsertEntry ev uid d c p w)"
  let ?f = "filter (sameKey uid d) ?es"
  have "length (filter (\<lambda>e. entryKey e = (uid, d)) ?es) \<le> 1"
    by (rule distinct_key_filter[OF upsert_distinct[OF assms]])
  then have le: "length ?f \<le> 1" by (simp only: sameKey_fun)
  have "?f \<noteq> []" using upsert_present[of uid d ev c p w]
    by (simp add: filter_empty_conv list_ex_iff)
  with le obtain e where e: "?f = [e]"
    by (cases ?f) (auto simp: Suc_le_eq)
  then have "e \<in> set ?f" by simp
  then have "e \<in> set ?es" "sameKey uid d e" by simp_all
  then have "payloadOf e = (c, Some c, p)" by (rule upsert_payload)
  with e show ?thesis by blast
qed

text \<open>
  Claim C5: storing an entry is an upsert with last-write-wins semantics. After two
  successful \<open>saveEntry\<close> calls for the same account on the same UTC date there is
  exactly one entry for that account and date, and it carries the second content and
  project tag. The table satisfies its unique index (\<open>upsert_distinct\<close> shows that
  \<open>saveEntry\<close> keeps it).
\<close>

theorem saveEntry_last_write_wins:
  assumes "distinct (map entryKey (entries w))"
    and "saveEntry ev1 userID content1 tag1 w = (None, w1)"
    and "saveEntry ev2 userID content2 tag2 w1 = (None, w2)"
    and "utcDay (now ev1) = utcDay (now ev2)"
  shows "\<exists>e. filter (sameKey userID (utcDay (now ev2))) (entries w2) = [e] \<and>
             eRawContent e = content2 \<and> eParsedContent e = Some content2 \<and>
             eProjectTag e = tag2"
proof -
  have w1: "w1 = upsertEntry ev1 userID (utcDay (now ev1)) content1 tag1 w"
    by (rule saveEntry_ok[OF assms(2)])
  have w2: "w2 = upsertEntry ev2 userID (utcDay (now ev2)) content2 tag2 w1"
    by (rule saveEntry_ok[OF assms(3)])
  have "distinct (map entryKey (entries w1))"
    unfolding w1 by (rule upsert_distinct[OF assms(1)])
  from one_row[OF this, of userID "utcDay (now ev2)" ev2 content2 tag2]
  show ?thesis unfolding w2 by (auto simp: payloadOf_def)
qed

theorem saveEntry_last_write_wins_witness:
  "distinct (map entryKey (entries emptyWorld)) \<and>
   (\<exists>w1 w2 e.
      saveEntry (sampleEnv 1719842400000000000) 1 ''first'' None emptyWorld = (None, w1) \<and>
      saveEntry (sampleEnv 1719846000000000000) 1 ''second'' (Some ''infra'') w1 = (None, w2) \<and>
      utcDay (now (sampleEnv 1719842400000000000)) = utcDay (now (sampleEnv 1719846000000000000)) \<and>
      filter (sameKey 1 (utcDay (now (sampleEnv 1719846000000000000)))) (entries w2) = [e] \<and>
      eRawContent e = ''second'' \<and> eParsedContent e = Some ''second'' \<and>
      eProjectTag e = Some ''infra'')"
proof -
  let ?e1 = "sampleEnv 1719842400000000000" and ?e2 = "sampleEnv 1719846000000000000"
  obtain w1 where w1: "saveEntry ?e1 1 ''first'' None emptyWorld = (None, w1)"
    by (simp add: saveEntry_def ExecContext_def sampleEnv_def)
  obtain w2 where w2: "saveEntry ?e2 1 ''second'' (Some ''infra'') w1 = (None, w2)"
    by (simp add: saveEntry_def ExecContext_def sampleEnv_def)
  have d: "distinct (map entryKey (entries emptyWorld))" by (simp add: emptyWorld_def)
  have day: "utcDay (now ?e1) = utcDay (now ?e2)"
    by (simp add: utcDay_def sampleEnv_def Hour_def)
  from saveEntry_last_write_wins[OF d w1 w2 day] d w1 w2 day show ?thesis by blast
qed

section \<open>The outbox\<close>

lemma markEmailSent_eq:
  "markEmailSent ev i mid w =
     (case db_error ev (UpdateEmailSent i mid) of
        Some err \<Rightarrow> (Some (''failed to mark email as sent'' @ '': '' @ err), w)
      | None \<Rightarrow> (None, updateRow i (setSent ev mid) w))"
  by (simp add: markEmailSent_def wrapErr_def ExecContext_def updateRow_def setSent_def
      split: option.splits)

lemma markEmailFailed_eq:
  "markEmailFailed ev i msg w =
     (case db_error ev (UpdateEmailFailed i msg) of
        Some err \<Rightarrow> (Some (''failed to mark email as failed'' @ '': '' @ err), w)
      | None \<Rightarrow> (None, updateRow i (setFailed ev msg) w))"
  by (simp add: markEmailFailed_def wrapErr_def ExecContext_def updateRow_def setFailed_def
      split: option.splits)

lemma updateRow_simps [simp]:
  "ses_calls (updateRow i f w) = ses_calls w"
  "email_logs (updateRow i f w) = map (\<lambda>m. if mID m = i then f m else m) (email_logs w)"
  by (simp_all add: updateRow_def)

lemma outboxLoop_step:
  "outboxLoop ev (email # rows) w = outboxLoop ev rows (stepOutbox ev email w)"
  by (simp add: stepOutbox_def split: prod.splits option.splits)

lemma stepOutbox_eq:
  "stepOutbox ev email w =
     (let w1 = w\<lparr>ses_calls := ses_calls w @ [email]\<rparr> in
      case ses_SendEmail ev email of
        Inl err \<Rightarrow> snd (markEmailFailed ev (mID email) (''failed to send email via SES: '' @ err) w1)
      | Inr mid \<Rightarrow>
          (case db_error ev (UpdateEmailSent (mID email) mid) of
             Some err \<Rightarrow> snd (markEmailFailed ev (mID email)
                              (''failed to mark email as sent'' @ '': '' @ err) w1)
           | None \<Rightarrow> updateRow (mID email) (setSent ev mid) w1))"
  by (simp add: stepOutbox_def sendEmail_def Let_def markEmailSent_eq
      split: sum.splits option.splits)

lemma stepOutbox_calls: "ses_calls (stepOutbox ev email w) = ses_calls w @ [email]"
  by (simp add: stepOutbox_eq Let_def markEmailFailed_eq split: sum.splits option.splits)

lemma stepOutbox_other:
  "r \<in> set (email_logs w) \<Longrightarrow> mID r \<noteq> mID email \<Longrightarrow> r \<in> set (email_logs (stepOutbox ev email w))"
  by (auto simp: stepOutbox_eq Let_def markEmailFailed_eq image_iff split: sum.splits option.splits)

lemma outboxLoop_calls: "ses_calls (outboxLoop ev rows w) = ses_calls w @ rows"
  by (induction rows arbitrary: w) (simp_all only: outboxLoop.simps(1) outboxLoop_step stepOutbox_calls append_Nil2 append_assoc append_Cons append_Nil)

lemma outboxLoop_other:
  "r \<in> set (email_logs w) \<Longrightarrow> mID r \<notin> mID ` set rows \<Longrightarrow> r \<in> set (email_logs (outboxLoop ev rows w))"
proof (induction rows arbitrary: w)
  case Nil
  then show ?case by simp
next
  case (Cons email rows)
  from Cons.prems have "r \<in> set (email_logs (stepOutbox ev email w))"
    by (intro stepOutbox_other) auto
  moreover from Cons.prems have "mID r \<notin> mID ` set rows" by auto
  ultimately have "r \<in> set (email_logs (outboxLoop ev rows (stepOutbox ev email w)))"
    by (rule Cons.IH)
  then show ?case by (simp only: outboxLoop_step)
qed

lemma outboxLoop_append:
  "outboxLoop ev (xs @ ys) w = outboxLoop ev ys (outboxLoop ev xs w)"
  by (induction xs arbitrary: w) (simp_all only: append_Nil outboxLoop.simps(1) append_Cons outboxLoop_step)

lemma scan_id [simp]: "mID (scanEmailLog m) = mID m"
  by (simp add: scanEmailLog_def)

lemma pending_rows:
  "set (pendingEmails ev w) \<subseteq> scanEmailLog ` {m \<in> set (email_logs w). isDue ev m}"
proof -
  have "set (take 10 (sort_key mCreatedAt (filter (isDue ev) (email_logs w))))
          \<subseteq> set (filter (isDue ev) (email_logs w))"
    using set_take_subset[of 10 "sort_key mCreatedAt (filter (isDue ev) (email_logs w))"]
    by (simp only: set_sort)
  then show ?thesis by (auto simp: pendingEmails_def)
qed

lemma pending_distinct:
  assumes "distinct (map mID (email_logs w))"
  shows "distinct (map mID (pendingEmails ev w))"
proof -
  have "distinct (map mID (filter (isDue ev) (email_logs w)))"
    using assms by (rule distinct_map_filter)
  then have "distinct (map mID (sort_key mCreatedAt (filter (isDue ev) (email_logs w))))"
    by (metis distinct_map distinct_sort set_sort)
  then have "distinct (map mID (take 10 (sort_key mCreatedAt (filter (isDue ev) (email_logs w)))))"
    by (metis distinct_take take_map)
  then show ?thesis by (simp add: pendingEmails_def o_def)
qed

lemma ProcessOutbox_calls:
  "ses_calls (snd (ProcessOutbox ev w)) =
     ses_calls w @ (if db_error ev QueryPendingEmails = None then pendingEmails ev w else [])"
  by (simp add: ProcessOutbox_def outboxLoop_calls split: option.splits)

lemma not_due_not_selected:
  assumes "distinct (map mID (email_logs w))" "m \<in> set (email_logs w)"
    and "mStatus m \<noteq> ''pending'' \<or> (\<exists>t. mScheduledAt m = Some t \<and> now ev < t)"
  shows "mID m \<notin> mID ` set (pendingEmails ev w)"
proof
  assume "mID m \<in> mID ` set (pendingEmails ev w)"
  then obtain c where c: "c \<in> set (pendingEmails ev w)" "mID c = mID m" by auto
  with pending_rows[of ev w] obtain r where r: "r \<in> set (email_logs w)" "isDue ev r" "c = scanEmailLog r"
    by auto
  with c have "mID r = mID m" by simp
  with assms(1,2) r(1) have "r = m" by (meson distinct_map inj_onD)
  with r(2) assms(3) show False by (auto simp: isDue_def)
qed

lemma attempted_eq:
  "attempted ev w = (if db_error ev QueryPendingEmails = None then pendingEmails ev w else [])"
  by (simp add: attempted_def ProcessOutbox_calls)

lemma step_settles:
  assumes "\<And>i t. db_error ev (UpdateEmailSent i t) = None"
    and "\<And>i t. db_error ev (UpdateEmailFailed i t) = None"
  shows "settled (mID e) (stepOutbox ev e w)"
  using assms
  by (auto simp: settled_def stepOutbox_eq Let_def markEmailFailed_eq setSent_def setFailed_def
        EmailStatusSent_def EmailStatusFailed_def split: sum.splits if_splits)

lemma step_keeps: "settled i w \<Longrightarrow> settled i (stepOutbox ev e w)"
  by (auto simp: settled_def stepOutbox_eq Let_def markEmailFailed_eq setSent_def setFailed_def
        EmailStatusSent_def EmailStatusFailed_def split: sum.splits option.splits if_splits)

lemma loop_keeps: "settled i w \<Longrightarrow> settled i (outboxLoop ev rows w)"
proof (induction rows arbitrary: w)
  case Nil
  then show ?case by simp
next
  case (Cons e rows)
  from Cons.prems have "settled i (stepOutbox ev e w)" by (rule step_keeps)
  then have "settled i (outboxLoop ev rows (stepOutbox ev e w))" by (rule Cons.IH)
  then show ?case by (simp only: outboxLoop_step)
qed

lemma loop_settles:
  assumes "\<And>i t. db_error ev (UpdateEmailSent i t) = None"
    and "\<And>i t. db_error ev (UpdateEmailFailed i t) = None"
  shows "c \<in> set rows \<Longrightarrow> settled (mID c) (outboxLoop ev rows w)"
proof (induction rows arbitrary: w)
  case Nil
  then show ?case by simp
next
  case (Cons e rows)
  show ?case
  proof (cases "c = e")
    case True
    have "settled (mID c) (stepOutbox ev e w)"
      unfolding True by (rule step_settles[OF assms])
    then have "settled (mID c) (outboxLoop ev rows (stepOutbox ev e w))" by (rule loop_keeps)
    then show ?thesis by (simp only: outboxLoop_step)
  next
    case False
    with Cons.prems have "c \<in> set rows" by simp
    then have "settled (mID c) (outboxLoop ev rows (stepOutbox ev e w))" by (rule Cons.IH)
    then show ?thesis by (simp only: outboxLoop_step)
  qed
qed

text \<open>
  Claim C2, as stated, fails: \<open>ProcessOutbox\<close> selects with one statement and records
  the outcome with another, after the transport call, and the update does not look at
  the status. When two invocations overlap so that both run their query before either
  updates (the second query sees the outbox as the first one did), the loop of each
  hands the same message to the transport.
\<close>

theorem ProcessOutbox_overlap_counterexample:
  "pendingEmails (sampleEnv 5) sampleOutbox = [scanEmailLog sampleMail] \<and>
   ses_calls (outboxLoop (sampleEnv 5) (pendingEmails (sampleEnv 5) sampleOutbox)
               (outboxLoop (sampleEnv 5) (pendingEmails (sampleEnv 5) sampleOutbox) sampleOutbox))
     = [scanEmailLog sampleMail, scanEmailLog sampleMail]"
proof -
  have p: "pendingEmails (sampleEnv 5) sampleOutbox = [scanEmailLog sampleMail]"
    by (simp add: pendingEmails_def sampleOutbox_def emptyWorld_def isDue_def sampleMail_def
          newEmailLog_def EmailStatusPending_def)
  have "ses_calls sampleOutbox = []" by (simp add: sampleOutbox_def emptyWorld_def)
  then show ?thesis by (simp only: p outboxLoop_calls) simp
qed

text \<open>
  Claim C2, amended: an invocation only attempts messages that are \<open>pending\<close> and due
  when its query runs: a message whose outcome was recorded before, or whose scheduled
  time still lies ahead, is not attempted; and when the status updates succeed, every
  message an invocation attempts has left \<open>pending\<close> when the invocation ends. Selection
  and status change are separate steps, not one atomic claim.
\<close>

theorem ProcessOutbox_attempts_pending_only:
  "(distinct (map mID (email_logs w)) \<and> m \<in> set (email_logs w) \<and>
    (mStatus m \<noteq> ''pending'' \<or> (\<exists>t. mScheduledAt m = Some t \<and> now ev < t))
      \<longrightarrow> mID m \<notin> mID ` set (attempted ev w)) \<and>
   ((\<forall>i t. db_error ev (UpdateEmailSent i t) = None \<and> db_error ev (UpdateEmailFailed i t) = None)
      \<longrightarrow> (\<forall>c \<in> set (attempted ev w). settled (mID c) (snd (ProcessOutbox ev w))))"
proof (intro conjI impI ballI)
  assume "distinct (map mID (email_logs w)) \<and> m \<in> set (email_logs w) \<and>
    (mStatus m \<noteq> ''pending'' \<or> (\<exists>t. mScheduledAt m = Some t \<and> now ev < t))"
  then have "mID m \<notin> mID ` set (pendingEmails ev w)"
    using not_due_not_selected[of w m ev] by blast
  then show "mID m \<notin> mID ` set (attempted ev w)"
    by (cases "db_error ev QueryPendingEmails") (simp_all add: attempted_eq)
next
  fix c
  assume ok: "\<forall>i t. db_error ev (UpdateEmailSent i t) = None \<and> db_error ev (UpdateEmailFailed i t) = None"
    and c: "c \<in> set (attempted ev w)"
  from c have q: "db_error ev QueryPendingEmails = None" and c': "c \<in> set (pendingEmails ev w)"
    by (auto simp: attempted_eq split: if_splits)
  have "settled (mID c) (outboxLoop ev (pendingEmails ev w) w)"
    using ok by (intro loop_settles[OF _ _ c']) auto
  with q show "settled (mID c) (snd (ProcessOutbox ev w))"
    by (simp add: ProcessOutbox_def)
qed

theorem ProcessOutbox_attempts_pending_only_witness:
  "distinct (map mID (email_logs (sampleOutbox\<lparr>email_logs := [sampleMail\<lparr>mStatus := ''sent''\<rparr>]\<rparr>))) \<and>
   mStatus (sampleMail\<lparr>mStatus := ''sent''\<rparr>) \<noteq> ''pending'' \<and>
   1 \<notin> mID ` set (attempted (sampleEnv 5) (sampleOutbox\<lparr>email_logs := [sampleMail\<lparr>mStatus := ''sent''\<rparr>]\<rparr>)) \<and>
   mStatus (sampleMail\<lparr>mScheduledAt := Some 9\<rparr>) = ''pending'' \<and> now (sampleEnv 5) < 9 \<and>
   1 \<notin> mID ` set (attempted (sampleEnv 5) (sampleOutbox\<lparr>email_logs := [sampleMail\<lparr>mScheduledAt := Some 9\<rparr>]\<rparr>)) \<and>
   scanEmailLog sampleMail \<in> set (attempted (sampleEnv 5) sampleOutbox) \<and>
   settled 1 (snd (ProcessOutbox (sampleEnv 5) sampleOutbox))"
proof -
  let ?m = "sampleMail\<lparr>mStatus := ''sent''\<rparr>"
  let ?w = "sampleOutbox\<lparr>email_logs := [?m]\<rparr>"
  let ?l = "sampleMail\<lparr>mScheduledAt := Some 9\<rparr>"
  let ?v = "sampleOutbox\<lparr>email_logs := [?l]\<rparr>"
  have h: "distinct (map mID (email_logs ?w)) \<and> ?m \<in> set (email_logs ?w) \<and> mStatus ?m \<noteq> ''pending''"
    by simp
  have l: "mStatus ?l = ''pending''" "now (sampleEnv 5) < 9"
    by (simp_all add: sampleMail_def newEmailLog_def EmailStatusPending_def sampleEnv_def)
  have g: "distinct (map mID (email_logs ?v)) \<and> ?l \<in> set (email_logs ?v) \<and>
      (mStatus ?l \<noteq> ''pending'' \<or> (\<exists>t. mScheduledAt ?l = Some t \<and> now (sampleEnv 5) < t))"
    using l(2) by simp
  have ok: "\<forall>i t. db_error (sampleEnv 5) (UpdateEmailSent i t) = None
                \<and> db_error (sampleEnv 5) (UpdateEmailFailed i t) = None"
    by (simp add: sampleEnv_def)
  have a: "scanEmailLog sampleMail \<in> set (attempted (sampleEnv 5) sampleOutbox)"
    by (simp add: attempted_eq pendingEmails_def sampleOutbox_def emptyWorld_def isDue_def
          sampleMail_def newEmailLog_def EmailStatusPending_def sampleEnv_def)
  have i: "mID ?m = 1" "mID ?l = 1" "mID (scanEmailLog sampleMail) = 1"
    by (simp_all add: sampleMail_def newEmailLog_def)
  from ProcessOutbox_attempts_pending_only[of ?w ?m "sampleEnv 5"] h
  have 1: "mID ?m \<notin> mID ` set (attempted (sampleEnv 5) ?w)" by blast
  from ProcessOutbox_attempts_pending_only[of ?v ?l "sampleEnv 5"] g
  have 2: "mID ?l \<notin> mID ` set (attempted (sampleEnv 5) ?v)" by blast
  from ProcessOutbox_attempts_pending_only[of sampleOutbox sampleMail "sampleEnv 5"] ok a
  have 3: "settled (mID (scanEmailLog sampleMail)) (snd (ProcessOutbox (sampleEnv 5) sampleOutbox))"
    by blast
  from h l 1 2 3 a i show ?thesis by simp
qed

lemma sendEmail_calls: "ses_calls (snd (sendEmail ev e w)) = ses_calls w @ [e]"
  by (simp add: sendEmail_def Let_def markEmailSent_eq split: sum.splits option.splits)

lemma stepOutbox_ids: "map mID (email_logs (stepOutbox ev e w)) = map mID (email_logs w)"
  by (auto simp: stepOutbox_eq Let_def markEmailFailed_eq setSent_def setFailed_def
        split: sum.splits option.splits)

lemma outboxLoop_ids: "map mID (email_logs (outboxLoop ev rows w)) = map mID (email_logs w)"
  by (induction rows arbitrary: w) (simp_all only: outboxLoop.simps(1) outboxLoop_step stepOutbox_ids)

lemma distinct_filter_single:
  "distinct (map f xs) \<Longrightarrow> x \<in> set xs \<Longrightarrow> filter (\<lambda>y. f y = f x) xs = [x]"
  by (induction xs) (auto simp: filter_empty_conv image_iff)

lemma setFailed_id: "mID (setFailed ev t m) = mID m"
  by (simp add: setFailed_def)

lemma step_mark_failed:
  assumes "ses_SendEmail ev e = Inr messageId"
    and "db_error ev (UpdateEmailSent (mID e) messageId) = Some err"
    and "db_error ev (UpdateEmailFailed (mID e) (''failed to mark email as sent'' @ '': '' @ err)) = None"
    and "m \<in> set (email_logs w)" "mID m = mID e"
  shows "setFailed ev (''failed to mark email as sent'' @ '': '' @ err) m
           \<in> set (email_logs (stepOutbox ev e w))"
  using assms by (simp add: stepOutbox_eq Let_def markEmailFailed_eq image_iff) force

text \<open>
  Claim C10: a message that the transport accepted but whose update to \<open>sent\<close> failed is
  marked \<open>failed\<close>, with the error text and the retry counter incremented (the update
  that records the failure being executed). So \<open>failed\<close> does not mean undelivered, and
  \<open>sendEmail\<close>, which never looks at the status, delivers the row again when it is
  replayed.
\<close>

theorem delivered_but_marked_failed:
  assumes ids: "distinct (map mID (email_logs w))"
    and m: "m \<in> set (email_logs w)"
    and sel: "scanEmailLog m \<in> set (pendingEmails ev w)"
    and q: "db_error ev QueryPendingEmails = None"
    and ses: "ses_SendEmail ev (scanEmailLog m) = Inr messageId"
    and sent: "db_error ev (UpdateEmailSent (mID m) messageId) = Some err"
    and failed: "db_error ev (UpdateEmailFailed (mID m)
                   (''failed to mark email as sent'' @ '': '' @ err)) = None"
  shows "\<exists>m'. filter (\<lambda>r. mID r = mID m) (email_logs (snd (ProcessOutbox ev w))) = [m'] \<and>
           mStatus m' = ''failed'' \<and>
           mErrorMessage m' = Some (''failed to mark email as sent'' @ '': '' @ err) \<and>
           mRetryCount m' = mRetryCount m + 1 \<and>
           scanEmailLog m \<in> set (attempted ev w) \<and>
           (\<forall>ev2 w2. ses_calls (snd (sendEmail ev2 m' w2)) = ses_calls w2 @ [m'])"
proof -
  let ?text = "''failed to mark email as sent'' @ '': '' @ err"
  let ?m' = "setFailed ev ?text m"
  let ?rows = "pendingEmails ev w"
  from sel obtain pre post where rows: "?rows = pre @ scanEmailLog m # post"
    by (meson split_list)
  have "distinct (map mID ?rows)" by (rule pending_distinct[OF ids])
  then have npre: "mID m \<notin> mID ` set pre" and npost: "mID m \<notin> mID ` set post"
    by (auto simp: rows)
  have 1: "m \<in> set (email_logs (outboxLoop ev pre w))"
    by (rule outboxLoop_other[OF m npre])
  have 2: "?m' \<in> set (email_logs (stepOutbox ev (scanEmailLog m) (outboxLoop ev pre w)))"
    using ses sent failed 1 by (intro step_mark_failed) simp_all
  have 3: "?m' \<in> set (email_logs (outboxLoop ev post
              (stepOutbox ev (scanEmailLog m) (outboxLoop ev pre w))))"
    using 2 npost by (intro outboxLoop_other) (simp_all add: setFailed_id)
  have fin: "snd (ProcessOutbox ev w)
           = outboxLoop ev post (stepOutbox ev (scanEmailLog m) (outboxLoop ev pre w))"
    by (simp add: ProcessOutbox_def q rows outboxLoop_append outboxLoop_step del: outboxLoop.simps)
  have "distinct (map mID (email_logs (snd (ProcessOutbox ev w))))"
    using ids by (simp add: ProcessOutbox_def q outboxLoop_ids)
  from distinct_filter_single[OF this, of ?m'] 3
  have f: "filter (\<lambda>r. mID r = mID m) (email_logs (snd (ProcessOutbox ev w))) = [?m']"
    by (simp add: fin setFailed_id)
  have a: "scanEmailLog m \<in> set (attempted ev w)"
    using sel q by (simp add: attempted_eq)
  have "mStatus ?m' = ''failed''" "mErrorMessage ?m' = Some ?text"
    "mRetryCount ?m' = mRetryCount m + 1"
    by (simp_all add: setFailed_def EmailStatusFailed_def)
  with f a sendEmail_calls show ?thesis by blast
qed

theorem delivered_but_marked_failed_witness:
  "distinct (map mID (email_logs sampleOutbox)) \<and>
   sampleMail \<in> set (email_logs sampleOutbox) \<and>
   scanEmailLog sampleMail
     \<in> set (pendingEmails (sampleEnv 5\<lparr>db_error := sentUpdateFails\<rparr>) sampleOutbox) \<and>
   ses_SendEmail (sampleEnv 5\<lparr>db_error := sentUpdateFails\<rparr>) (scanEmailLog sampleMail)
     = Inr ''ses-0001'' \<and>
   sentUpdateFails (UpdateEmailSent 1 ''ses-0001'') = Some ''connection reset'' \<and>
   (\<exists>m'. filter (\<lambda>r. mID r = 1)
            (email_logs (snd (ProcessOutbox (sampleEnv 5\<lparr>db_error := sentUpdateFails\<rparr>)
               sampleOutbox))) = [m'] \<and>
         mStatus m' = ''failed'' \<and>
         mErrorMessage m' = Some ''failed to mark email as sent: connection reset'' \<and>
         mRetryCount m' = 1 \<and>
         scanEmailLog sampleMail
           \<in> set (attempted (sampleEnv 5\<lparr>db_error := sentUpdateFails\<rparr>) sampleOutbox))"
proof -
  let ?ev = "sampleEnv 5\<lparr>db_error := sentUpdateFails\<rparr>"
  have ids: "distinct (map mID (email_logs sampleOutbox))"
    and m: "sampleMail \<in> set (email_logs sampleOutbox)"
    by (simp_all add: sampleOutbox_def)
  have sel: "scanEmailLog sampleMail \<in> set (pendingEmails ?ev sampleOutbox)"
    by (simp add: pendingEmails_def sampleOutbox_def emptyWorld_def isDue_def
          sampleMail_def newEmailLog_def EmailStatusPending_def sampleEnv_def)
  have q: "db_error ?ev QueryPendingEmails = None" by (simp add: sentUpdateFails_def)
  have ses: "ses_SendEmail ?ev (scanEmailLog sampleMail) = Inr ''ses-0001''"
    by (simp add: sampleEnv_def)
  have i: "mID sampleMail = 1" "mRetryCount sampleMail = 0"
    by (simp_all add: sampleMail_def newEmailLog_def)
  have sent: "db_error ?ev (UpdateEmailSent (mID sampleMail) ''ses-0001'') = Some ''connection reset''"
    by (simp add: sentUpdateFails_def)
  have failed: "db_error ?ev (UpdateEmailFailed (mID sampleMail)
        (''failed to mark email as sent'' @ '': '' @ ''connection reset'')) = None"
    by (simp add: sentUpdateFails_def)
  from delivered_but_marked_failed[OF ids m sel q ses sent failed] i
  have "\<exists>m'. filter (\<lambda>r. mID r = 1) (email_logs (snd (ProcessOutbox ?ev sampleOutbox))) = [m'] \<and>
         mStatus m' = ''failed'' \<and>
         mErrorMessage m' = Some ''failed to mark email as sent: connection reset'' \<and>
         mRetryCount m' = 1 \<and>
         scanEmailLog sampleMail \<in> set (attempted ?ev sampleOutbox)"
    by auto
  with ids m sel ses sent i show ?thesis by simp
qed

section \<open>Handling replies\<close>

lemma ExecContext_fields:
  "fst (ExecContext ev q f w) = db_error ev q"
  "snd (ExecContext ev q f w) = (if db_error ev q = None then f w else w)"
  by (simp_all add: ExecContext_def split: option.splits)

lemma QueueEmail_fields [simp]:
  "users (snd (QueueEmail ev a b c d e f w)) = users w"
  "entries (snd (QueueEmail ev a b c d e f w)) = entries w"
  by (simp_all add: QueueEmail_def wrapErr_def ExecContext_def split: option.splits)

lemma QueueEmail_ok:
  "db_error ev (InsertEmailLog a b c d e f) = None \<Longrightarrow>
   QueueEmail ev a b c d e f w =
     (None, w\<lparr>email_logs := email_logs w @ [newEmailLog ev (email_logs_id_seq w + 1) a b c d e f],
              email_logs_id_seq := email_logs_id_seq w + 1\<rparr>)"
  by (simp add: QueueEmail_def wrapErr_def ExecContext_def)

lemma SendClarification_fields [simp]:
  "users (snd (SendClarificationRequest ev i a msg w)) = users w"
  "entries (snd (SendClarificationRequest ev i a msg w)) = entries w"
  by (simp_all add: SendClarificationRequest_def split: sum.splits prod.splits)

lemma SendClarification_ok:
  assumes "RenderClarificationEmail ev msg = Inr (s, t)"
    and "db_error ev (InsertEmailLog (Some (uID user)) (uEmail user) ''clarification''
           s t None) = None"
  shows "SendClarificationRequest ev (uID user) (uEmail user) msg w =
     (None, w\<lparr>email_logs := email_logs w @
                [\<lparr>mID = email_logs_id_seq w + 1, mUserID = Some (uID user),
                 mRecipientEmail = uEmail user, mEmailType = ''clarification'',
                 mSubject = s, mBodyText = t, mStatus = ''pending'',
                 mSESMessageID = None, mErrorMessage = None, mRetryCount = 0,
                 mScheduledAt = None, mSentAt = None,
                 mCreatedAt = now ev, mUpdatedAt = now ev\<rparr>],
              email_logs_id_seq := email_logs_id_seq w + 1\<rparr>)"
  using assms
  by (simp add: SendClarificationRequest_def QueueEmail_ok newEmailLog_def
        EmailTypeClarification_def EmailStatusPending_def)

lemma no_match_replace: "FindAllStringSubmatch re s = [] \<Longrightarrow> ReplaceAllString re s = s"
  by (cases "rx_find re s") (auto split: if_splits)

lemma ParseEmailReply_empty:
  assumes "FindAllStringSubmatch pauseRegex (cleanEmailContent (TrimSpace body)) = []"
    and "FindAllStringSubmatch projectRegex (cleanEmailContent (TrimSpace body)) = []"
    and "FindAllStringSubmatch entryRegex (cleanEmailContent (TrimSpace body)) = []"
    and "stripTags (cleanEmailContent (TrimSpace body)) = []"
  shows "ParseEmailReply ev body =
     \<lparr>Content = [], Commands = [], ProjectTag = None, IsValidated = False,
      Error = Some ''no meaningful content found in reply''\<rparr>"
  using assms by (simp add: ParseEmailReply_def Let_def)

text \<open>
  A reply that consists of white space only, Unicode white space included, is an empty
  reply.
\<close>

lemma blank_reply_is_empty:
  "ParseEmailReply (sampleEnv 0) [CHR 0xC2, CHR 0xA0, CHR 0x0A, CHR 0xE2, CHR 0x80, CHR 0x83] =
     \<lparr>Content = [], Commands = [], ProjectTag = None, IsValidated = False,
      Error = Some ''no meaningful content found in reply''\<rparr>"
  by code_simp

text \<open>
  Claim C8: when the cleaned text of a reply holds no command tag and nothing is left
  of it, \<open>ParseEmailReply\<close> reports the empty reply, and \<open>HandleEmailReply\<close> for an active
  account stores no journal entry and leaves the accounts as they are. With the
  clarification mail for the reply rendered as subject \<open>s\<close> and text \<open>t\<close> and its insert
  accepted, the handler returns without error and the state is the one before with one
  row more in the outbox: a message of type \<open>clarification\<close> for the account, addressed
  to the account's address, with that subject and text, \<open>pending\<close>, never tried and due
  at once.
\<close>

theorem empty_reply_yields_clarification:
  assumes "GetUserByEmail ev senderEmail w = Inr (Some user)" and "uIsVerified user"
    and "FindAllStringSubmatch pauseRegex (cleanEmailContent (TrimSpace body)) = []"
    and "FindAllStringSubmatch projectRegex (cleanEmailContent (TrimSpace body)) = []"
    and "FindAllStringSubmatch entryRegex (cleanEmailContent (TrimSpace body)) = []"
    and "stripTags (cleanEmailContent (TrimSpace body)) = []"
  shows "\<not> IsValidated (ParseEmailReply ev body) \<and>
         Error (ParseEmailReply ev body) = Some ''no meaningful content found in reply'' \<and>
         entries (snd (HandleEmailReply ev senderEmail subject body w)) = entries w \<and>
         users (snd (HandleEmailReply ev senderEmail subject body w)) = users w \<and>
         (\<forall>s t. RenderClarificationEmail ev body = Inr (s, t) \<and>
                db_error ev (InsertEmailLog (Some (uID user)) (uEmail user)
                               ''clarification'' s t None) = None \<longrightarrow>
            HandleEmailReply ev senderEmail subject body w =
              (None, w\<lparr>email_logs := email_logs w @
                [\<lparr>mID = email_logs_id_seq w + 1, mUserID = Some (uID user),
                  mRecipientEmail = uEmail user, mEmailType = ''clarification'',
                  mSubject = s, mBodyText = t, mStatus = ''pending'',
                  mSESMessageID = None, mErrorMessage = None, mRetryCount = 0,
                  mScheduledAt = None, mSentAt = None,
                  mCreatedAt = now ev, mUpdatedAt = now ev\<rparr>],
               email_logs_id_seq := email_logs_id_seq w + 1\<rparr>))"
proof -
  have p: "ParseEmailReply ev body =
     \<lparr>Content = [], Commands = [], ProjectTag = None, IsValidated = False,
      Error = Some ''no meaningful content found in reply''\<rparr>"
    by (rule ParseEmailReply_empty[OF assms(3-6)])
  have h: "HandleEmailReply ev senderEmail subject body w
         = SendClarificationRequest ev (uID user) (uEmail user) body w"
    using assms(1,2) by (simp add: HandleEmailReply_def p)
  show ?thesis
    unfolding h by (simp add: p SendClarification_ok)
qed

theorem empty_reply_yields_clarification_witness:
  "GetUserByEmail (sampleEnv 5) ''ada@example.org'' sampleAccounts = Inr (Some sampleUser) \<and>
   uIsVerified sampleUser \<and>
   cleanEmailContent (TrimSpace ''> earlier mail\<newline>--\<newline>Sent from my phone'') = [] \<and>
   \<not> IsValidated (ParseEmailReply (sampleEnv 5) ''> earlier mail\<newline>--\<newline>Sent from my phone'') \<and>
   entries (snd (HandleEmailReply (sampleEnv 5) ''ada@example.org'' ''Re: today''
      ''> earlier mail\<newline>--\<newline>Sent from my phone'' sampleAccounts)) = [] \<and>
   HandleEmailReply (sampleEnv 5) ''ada@example.org'' ''Re: today''
      ''> earlier mail\<newline>--\<newline>Sent from my phone'' sampleAccounts =
     (None, sampleAccounts\<lparr>email_logs :=
        [\<lparr>mID = 1, mUserID = Some 1, mRecipientEmail = ''ada@example.org'',
          mEmailType = ''clarification'',
          mSubject = ''Clarification needed for your journal entry'',
          mBodyText = ''> earlier mail\<newline>--\<newline>Sent from my phone'', mStatus = ''pending'',
          mSESMessageID = None, mErrorMessage = None, mRetryCount = 0,
          mScheduledAt = None, mSentAt = None, mCreatedAt = 5, mUpdatedAt = 5\<rparr>],
        email_logs_id_seq := 1\<rparr>)"
proof -
  let ?b = "''> earlier mail\<newline>--\<newline>Sent from my phone''"
  have u: "GetUserByEmail (sampleEnv 5) ''ada@example.org'' sampleAccounts = Inr (Some sampleUser)"
    by (simp add: GetUserByEmail_def sampleEnv_def sampleAccounts_def sampleUser_def)
  have v: "uIsVerified sampleUser" by (simp add: sampleUser_def)
  have c: "cleanEmailContent (TrimSpace ?b) = []" by code_simp
  have n: "FindAllStringSubmatch pauseRegex [] = []" "FindAllStringSubmatch projectRegex [] = []"
    "FindAllStringSubmatch entryRegex [] = []" "stripTags [] = []"
    by code_simp+
  have r: "RenderClarificationEmail (sampleEnv 5) ?b
             = Inr (''Clarification needed for your journal entry'', ?b) \<and>
           db_error (sampleEnv 5) (InsertEmailLog (Some (uID sampleUser)) (uEmail sampleUser)
              ''clarification'' ''Clarification needed for your journal entry'' ?b None) = None"
    by (simp add: sampleEnv_def)
  have f: "uID sampleUser = 1" "uEmail sampleUser = ''ada@example.org''"
    "now (sampleEnv 5) = 5" "email_logs sampleAccounts = []" "email_logs_id_seq sampleAccounts = 0"
    "entries sampleAccounts = []"
    by (simp_all add: sampleUser_def sampleEnv_def sampleAccounts_def emptyWorld_def)
  note t = empty_reply_yields_clarification[of "sampleEnv 5" "''ada@example.org''" sampleAccounts
      sampleUser ?b "''Re: today''", OF u v, unfolded c, OF n]
  from t r have "HandleEmailReply (sampleEnv 5) ''ada@example.org'' ''Re: today'' ?b sampleAccounts =
     (None, sampleAccounts\<lparr>email_logs := email_logs sampleAccounts @
        [\<lparr>mID = email_logs_id_seq sampleAccounts + 1, mUserID = Some (uID sampleUser),
          mRecipientEmail = uEmail sampleUser, mEmailType = ''clarification'',
          mSubject = ''Clarification needed for your journal entry'',
          mBodyText = ?b, mStatus = ''pending'',
          mSESMessageID = None, mErrorMessage = None, mRetryCount = 0,
          mScheduledAt = None, mSentAt = None,
          mCreatedAt = now (sampleEnv 5), mUpdatedAt = now (sampleEnv 5)\<rparr>],
        email_logs_id_seq := email_logs_id_seq sampleAccounts + 1\<rparr>)"
    by blast
  then have 1: "HandleEmailReply (sampleEnv 5) ''ada@example.org'' ''Re: today'' ?b sampleAccounts =
     (None, sampleAccounts\<lparr>email_logs :=
        [\<lparr>mID = 1, mUserID = Some 1, mRecipientEmail = ''ada@example.org'',
          mEmailType = ''clarification'',
          mSubject = ''Clarification needed for your journal entry'',
          mBodyText = ?b, mStatus = ''pending'',
          mSESMessageID = None, mErrorMessage = None, mRetryCount = 0,
          mScheduledAt = None, mSentAt = None, mCreatedAt = 5, mUpdatedAt = 5\<rparr>],
        email_logs_id_seq := 1\<rparr>)"
    by (simp only: f append_Nil) simp
  from t have 2: "entries (snd (HandleEmailReply (sampleEnv 5) ''ada@example.org''
      ''Re: today'' ?b sampleAccounts)) = []"
    by (simp add: f)
  from t have 3: "\<not> IsValidated (ParseEmailReply (sampleEnv 5) ?b)" by blast
  from u v c 1 2 3 show ?thesis by blast
qed

lemma applyCommand_fail:
  "fst (applyCommand ev user parsed cmd w) = Some err \<Longrightarrow> snd (applyCommand ev user parsed cmd w) = w"
  by (auto simp: applyCommand_def pauseUser_def updateUserProject_def saveEntry_def
        ExecContext_def Let_def split: option.splits if_splits)

lemma processCommands_applyAll:
  "applyAll ev user parsed pre w = Some w1 \<Longrightarrow>
   processCommands ev user body parsed (pre @ rest) w = processCommands ev user body parsed rest w1"
proof (induction pre arbitrary: w)
  case Nil
  then show ?case by simp
next
  case (Cons cmd pre)
  then show ?case
    by (cases "applyCommand ev user parsed cmd w") (auto split: option.splits)
qed

lemma processCommands_fail:
  assumes "fst (applyCommand ev user parsed cmd w) = Some err"
  shows "processCommands ev user body parsed (cmd # post) w
       = SendClarificationRequest ev (uID user) (uEmail user) body w"
  using assms applyCommand_fail[OF assms]
  by (cases "applyCommand ev user parsed cmd w") auto

text \<open>
  The parser lists the pause commands first, then the project commands, then the
  entries, whatever their order in the reply; \<open>HandleEmailReply\<close> applies them in that
  order.
\<close>

lemma pauseLoop_commands:
  "\<exists>ps. Commands (pauseLoop ev ms r) = Commands r @ ps \<and> (\<forall>c \<in> set ps. Type c = ''pause'')"
proof (induction ms arbitrary: r)
  case Nil
  then show ?case by simp
next
  case (Cons m ms)
  show ?case
  proof (cases "length m > 1")
    case False
    then show ?thesis using Cons.IH[of r] by simp
  next
    case True
    show ?thesis
    proof (cases "parsePauseDuration ev (m ! 1)")
      case (Inl err)
      with True show ?thesis by simp
    next
      case (Inr d)
      let ?c = "\<lparr>Type = CommandTypePause, Value = m ! 1, Duration = Some d\<rparr>"
      from Cons.IH[of "r\<lparr>Commands := Commands r @ [?c]\<rparr>"]
      obtain ps where "Commands (pauseLoop ev ms (r\<lparr>Commands := Commands r @ [?c]\<rparr>))
          = Commands r @ ?c # ps" "\<forall>c \<in> set ps. Type c = ''pause''"
        by auto
      with True Inr have "Commands (pauseLoop ev (m # ms) r) = Commands r @ (?c # ps)
          \<and> (\<forall>c \<in> set (?c # ps). Type c = ''pause'')"
        by (simp add: CommandTypePause_def)
      then show ?thesis by blast
    qed
  qed
qed

lemma projectLoop_commands:
  "\<exists>qs. Commands (projectLoop ms r) = Commands r @ qs \<and> (\<forall>c \<in> set qs. Type c = ''project'')"
proof (induction ms arbitrary: r)
  case Nil
  then show ?case by simp
next
  case (Cons m ms)
  show ?case
  proof (cases "length m > 1")
    case False
    then show ?thesis using Cons.IH[of r] by simp
  next
    case True
    let ?c = "\<lparr>Type = CommandTypeProject, Value = TrimSpace (m ! 1), Duration = None\<rparr>"
    let ?r = "r\<lparr>Commands := Commands r @ [?c], ProjectTag := Some (TrimSpace (m ! 1))\<rparr>"
    from Cons.IH[of ?r]
    obtain qs where "Commands (projectLoop ms ?r) = Commands r @ ?c # qs"
      "\<forall>c \<in> set qs. Type c = ''project''"
      by auto
    with True have "Commands (projectLoop (m # ms) r) = Commands r @ (?c # qs)
        \<and> (\<forall>c \<in> set (?c # qs). Type c = ''project'')"
      by (simp add: CommandTypeProject_def Let_def)
    then show ?thesis by blast
  qed
qed

lemma entryLoop_commands:
  "\<exists>es. Commands (entryLoop ms r) = Commands r @ es \<and> (\<forall>c \<in> set es. Type c = ''entry'')"
proof (induction ms arbitrary: r)
  case Nil
  then show ?case by simp
next
  case (Cons m ms)
  show ?case
  proof (cases "length m > 1")
    case False
    then show ?thesis using Cons.IH[of r] by simp
  next
    case True
    let ?c = "\<lparr>Type = CommandTypeEntry, Value = TrimSpace (m ! 1), Duration = None\<rparr>"
    let ?r = "r\<lparr>Commands := Commands r @ [?c]\<rparr>"
    from Cons.IH[of ?r]
    obtain es where "Commands (entryLoop ms ?r) = Commands r @ ?c # es"
      "\<forall>c \<in> set es. Type c = ''entry''"
      by auto
    with True have "Commands (entryLoop (m # ms) r) = Commands r @ (?c # es)
        \<and> (\<forall>c \<in> set (?c # es). Type c = ''entry'')"
      by (simp add: CommandTypeEntry_def Let_def)
    then show ?thesis by blast
  qed
qed

lemma commands_order:
  "\<exists>ps qs es. Commands (ParseEmailReply ev body) = ps @ qs @ es \<and>
     (\<forall>c \<in> set ps. Type c = ''pause'') \<and> (\<forall>c \<in> set qs. Type c = ''project'') \<and>
     (\<forall>c \<in> set es. Type c = ''entry'')"
proof -
  let ?content = "cleanEmailContent (TrimSpace body)"
  let ?r0 = "\<lparr>Content = ?content, Commands = [], ProjectTag = None,
              IsValidated = True, Error = None\<rparr>"
  let ?r1 = "pauseLoop ev (FindAllStringSubmatch pauseRegex ?content) ?r0"
  let ?r2 = "projectLoop (FindAllStringSubmatch projectRegex ?content) ?r1"
  let ?r3 = "entryLoop (FindAllStringSubmatch entryRegex ?content) ?r2"
  obtain ps where ps: "Commands ?r1 = ps" "\<forall>c \<in> set ps. Type c = ''pause''"
    using pauseLoop_commands[of ev "FindAllStringSubmatch pauseRegex ?content" ?r0] by auto
  obtain qs where qs: "Commands ?r2 = ps @ qs" "\<forall>c \<in> set qs. Type c = ''project''"
    using projectLoop_commands[of "FindAllStringSubmatch projectRegex ?content" ?r1] ps(1) by auto
  obtain es where es: "Commands ?r3 = ps @ qs @ es" "\<forall>c \<in> set es. Type c = ''entry''"
    using entryLoop_commands[of "FindAllStringSubmatch entryRegex ?content" ?r2] qs(1) by auto
  show ?thesis
  proof (cases "IsValidated ?r1")
    case False
    then have "Commands (ParseEmailReply ev body) = ps @ [] @ []"
      using ps(1) by (simp add: ParseEmailReply_def Let_def)
    with ps(2) show ?thesis by (metis empty_iff list.set(1))
  next
    case True
    show ?thesis
    proof (cases "ps @ qs @ es = []")
      case False
      with True es(1) have "Commands (ParseEmailReply ev body) = ps @ qs @ es"
        by (simp add: ParseEmailReply_def Let_def)
      with ps(2) qs(2) es(2) show ?thesis by blast
    next
      case e: True
      let ?t = "stripTags (Content ?r3)"
      show ?thesis
      proof (cases "?t = []")
        case True
        with \<open>IsValidated ?r1\<close> e es(1) have "Commands (ParseEmailReply ev body) = [] @ [] @ []"
          by (simp add: ParseEmailReply_def Let_def)
        then show ?thesis by (metis empty_iff list.set(1))
      next
        case False
        let ?c = "\<lparr>Type = CommandTypeEntry, Value = ?t, Duration = None\<rparr>"
        from False \<open>IsValidated ?r1\<close> e es(1)
        have "Commands (ParseEmailReply ev body) = [] @ [] @ [?c]"
          by (simp add: ParseEmailReply_def Let_def)
        moreover have "\<forall>c \<in> set [?c]. Type c = ''entry''" by (simp add: CommandTypeEntry_def)
        ultimately show ?thesis by (metis empty_iff list.set(1))
      qed
    qed
  qed
qed

lemma commands_order_example:
  "map Type (Commands (ParseEmailReply (sampleEnv 0)
      ''<entry>did x</entry><project>p</project><pause>1 day</pause>''))
     = [''pause'', ''project'', ''entry'']"
  by code_simp

text \<open>
  Claim C3, amended: when a command of a valid reply fails, the failing command and the
  commands after it leave no effect, and the commands before it stay applied: accounts
  and entries are those reached after the earlier commands (the state \<open>w1\<close>). With the
  clarification mail for the reply rendered as subject \<open>s\<close> and text \<open>t\<close> and its insert
  accepted, the handler returns without error and the state is \<open>w1\<close> with one row more
  in the outbox: a message of type \<open>clarification\<close> for the account, addressed to the
  account's address, with that subject and text, \<open>pending\<close>, never tried and due at
  once.
\<close>

theorem failing_command_keeps_earlier_commands:
  assumes "GetUserByEmail ev senderEmail w = Inr (Some user)" and "uIsVerified user"
    and "IsValidated (ParseEmailReply ev body)"
    and "Commands (ParseEmailReply ev body) = pre @ cmd # post"
    and "applyAll ev user (ParseEmailReply ev body) pre w = Some w1"
    and "fst (applyCommand ev user (ParseEmailReply ev body) cmd w1) = Some err"
  shows "users (snd (HandleEmailReply ev senderEmail subject body w)) = users w1 \<and>
         entries (snd (HandleEmailReply ev senderEmail subject body w)) = entries w1 \<and>
         (\<forall>s t. RenderClarificationEmail ev body = Inr (s, t) \<and>
                db_error ev (InsertEmailLog (Some (uID user)) (uEmail user)
                               ''clarification'' s t None) = None \<longrightarrow>
            HandleEmailReply ev senderEmail subject body w =
              (None, w1\<lparr>email_logs := email_logs w1 @
                [\<lparr>mID = email_logs_id_seq w1 + 1, mUserID = Some (uID user),
                  mRecipientEmail = uEmail user, mEmailType = ''clarification'',
                  mSubject = s, mBodyText = t, mStatus = ''pending'',
                  mSESMessageID = None, mErrorMessage = None, mRetryCount = 0,
                  mScheduledAt = None, mSentAt = None,
                  mCreatedAt = now ev, mUpdatedAt = now ev\<rparr>],
               email_logs_id_seq := email_logs_id_seq w1 + 1\<rparr>))"
proof -
  have "HandleEmailReply ev senderEmail subject body w
      = processCommands ev user body (ParseEmailReply ev body) (pre @ cmd # post) w"
    using assms(1-4) by (simp add: HandleEmailReply_def Let_def)
  also have "\<dots> = processCommands ev user body (ParseEmailReply ev body) (cmd # post) w1"
    by (rule processCommands_applyAll[OF assms(5)])
  also have "\<dots> = SendClarificationRequest ev (uID user) (uEmail user) body w1"
    by (rule processCommands_fail[OF assms(6)])
  finally have h: "HandleEmailReply ev senderEmail subject body w
      = SendClarificationRequest ev (uID user) (uEmail user) body w1" .
  show ?thesis
    unfolding h by (simp add: SendClarification_ok)
qed

text \<open>
  Claim C3, as stated, fails: the commands run one by one, each in its own statement,
  and nothing undoes them. In a reply that pauses and adds an entry, with the entry
  upsert failing, the clarification is enqueued and the account stays paused.
\<close>

theorem partial_application_counterexample:
  "map uIsPaused (users sampleAccounts) = [False] \<and>
   map uIsPaused (users (snd (HandleEmailReply
      (sampleEnv 1719842400000000000\<lparr>db_error := entryUpsertFails\<rparr>) ''ada@example.org''
      ''Re: today'' ''<pause>2 days</pause><entry>did x</entry>'' sampleAccounts))) = [True] \<and>
   map mEmailType (email_logs (snd (HandleEmailReply
      (sampleEnv 1719842400000000000\<lparr>db_error := entryUpsertFails\<rparr>) ''ada@example.org''
      ''Re: today'' ''<pause>2 days</pause><entry>did x</entry>'' sampleAccounts)))
     = [''clarification'']"
  by code_simp

theorem failing_command_keeps_earlier_commands_witness:
  "GetUserByEmail (sampleEnv 1719842400000000000\<lparr>db_error := entryUpsertFails\<rparr>)
     ''ada@example.org'' sampleAccounts = Inr (Some sampleUser) \<and>
   uIsVerified sampleUser \<and>
   IsValidated (ParseEmailReply (sampleEnv 1719842400000000000\<lparr>db_error := entryUpsertFails\<rparr>)
     ''<pause>2 days</pause><entry>did x</entry>'') \<and>
   Commands (ParseEmailReply (sampleEnv 1719842400000000000\<lparr>db_error := entryUpsertFails\<rparr>)
     ''<pause>2 days</pause><entry>did x</entry>'') =
     [\<lparr>Type = ''pause'', Value = ''2 days'', Duration = Some 172800000000000\<rparr>] @
     \<lparr>Type = ''entry'', Value = ''did x'', Duration = None\<rparr> # [] \<and>
   HandleEmailReply
      (sampleEnv 1719842400000000000\<lparr>db_error := entryUpsertFails\<rparr>) ''ada@example.org''
      ''Re: today'' ''<pause>2 days</pause><entry>did x</entry>'' sampleAccounts =
     (None, sampleAccounts\<lparr>
        users := [sampleUser\<lparr>uIsPaused := True, uPauseUntil := Some 1720015200000000000,
                             uUpdatedAt := 1719842400000000000\<rparr>],
        email_logs :=
          [\<lparr>mID = 1, mUserID = Some 1, mRecipientEmail = ''ada@example.org'',
            mEmailType = ''clarification'',
            mSubject = ''Clarification needed for your journal entry'',
            mBodyText = ''<pause>2 days</pause><entry>did x</entry>'', mStatus = ''pending'',
            mSESMessageID = None, mErrorMessage = None, mRetryCount = 0,
            mScheduledAt = None, mSentAt = None,
            mCreatedAt = 1719842400000000000, mUpdatedAt = 1719842400000000000\<rparr>],
        email_logs_id_seq := 1\<rparr>)"
proof -
  let ?ev = "sampleEnv 1719842400000000000\<lparr>db_error := entryUpsertFails\<rparr>"
  let ?b = "''<pause>2 days</pause><entry>did x</entry>''"
  let ?p = "\<lparr>Type = ''pause'', Value = ''2 days'', Duration = Some 172800000000000\<rparr>"
  let ?e = "\<lparr>Type = ''entry'', Value = ''did x'', Duration = None\<rparr>"
  let ?w1 = "sampleAccounts\<lparr>
        users := [sampleUser\<lparr>uIsPaused := True, uPauseUntil := Some 1720015200000000000,
                             uUpdatedAt := 1719842400000000000\<rparr>]\<rparr>"
  have u: "GetUserByEmail ?ev ''ada@example.org'' sampleAccounts = Inr (Some sampleUser)"
    by code_simp
  have v: "uIsVerified sampleUser" by (simp add: sampleUser_def)
  have valid: "IsValidated (ParseEmailReply ?ev ?b)" by code_simp
  have cmds: "Commands (ParseEmailReply ?ev ?b) = [?p] @ ?e # []" by code_simp
  have pre: "applyAll ?ev sampleUser (ParseEmailReply ?ev ?b) [?p] sampleAccounts = Some ?w1"
    by code_simp
  have fail: "fst (applyCommand ?ev sampleUser (ParseEmailReply ?ev ?b) ?e ?w1) = Some ''disk full''"
    by code_simp
  have r: "RenderClarificationEmail ?ev ?b
             = Inr (''Clarification needed for your journal entry'', ?b) \<and>
           db_error ?ev (InsertEmailLog (Some (uID sampleUser)) (uEmail sampleUser)
              ''clarification'' ''Clarification needed for your journal entry'' ?b None) = None"
    by (simp add: sampleEnv_def entryUpsertFails_def)
  have f: "uID sampleUser = 1" "uEmail sampleUser = ''ada@example.org''"
    "now ?ev = 1719842400000000000" "email_logs ?w1 = []" "email_logs_id_seq ?w1 = 0"
    by (simp_all add: sampleUser_def sampleEnv_def sampleAccounts_def emptyWorld_def)
  note t = failing_command_keeps_earlier_commands[OF u v valid cmds pre fail, of "''Re: today''"]
  from t r have "HandleEmailReply ?ev ''ada@example.org'' ''Re: today'' ?b sampleAccounts =
     (None, ?w1\<lparr>email_logs := email_logs ?w1 @
        [\<lparr>mID = email_logs_id_seq ?w1 + 1, mUserID = Some (uID sampleUser),
          mRecipientEmail = uEmail sampleUser, mEmailType = ''clarification'',
          mSubject = ''Clarification needed for your journal entry'',
          mBodyText = ?b, mStatus = ''pending'',
          mSESMessageID = None, mErrorMessage = None, mRetryCount = 0,
          mScheduledAt = None, mSentAt = None,
          mCreatedAt = now ?ev, mUpdatedAt = now ?ev\<rparr>],
        email_logs_id_seq := email_logs_id_seq ?w1 + 1\<rparr>)"
    by blast
  then have 1: "HandleEmailReply ?ev ''ada@example.org'' ''Re: today'' ?b sampleAccounts =
     (None, sampleAccounts\<lparr>
        users := [sampleUser\<lparr>uIsPaused := True, uPauseUntil := Some 1720015200000000000,
                             uUpdatedAt := 1719842400000000000\<rparr>],
        email_logs :=
          [\<lparr>mID = 1, mUserID = Some 1, mRecipientEmail = ''ada@example.org'',
            mEmailType = ''clarification'',
            mSubject = ''Clarification needed for your journal entry'',
            mBodyText = ?b, mStatus = ''pending'',
            mSESMessageID = None, mErrorMessage = None, mRetryCount = 0,
            mScheduledAt = None, mSentAt = None,
            mCreatedAt = 1719842400000000000, mUpdatedAt = 1719842400000000000\<rparr>],
        email_logs_id_seq := 1\<rparr>)"
    by (simp only: f append_Nil) simp
  from u v valid cmds 1 show ?thesis by blast
qed

lemma HasPrefix_iff: "HasPrefix s p \<longleftrightarrow> (\<exists>post. s = p @ post)"
  by (induction s p rule: HasPrefix.induct) auto

lemma Contains_iff: "Contains s sub \<longleftrightarrow> (\<exists>pre post. s = pre @ sub @ post)"
proof (induction s)
  case Nil
  then show ?case by auto
next
  case (Cons c cs)
  show ?case
  proof
    assume "Contains (c # cs) sub"
    then consider "HasPrefix (c # cs) sub" | "Contains cs sub" by auto
    then show "\<exists>pre post. c # cs = pre @ sub @ post"
    proof cases
      case 1
      then obtain post where "c # cs = sub @ post" by (auto simp: HasPrefix_iff)
      then have "c # cs = [] @ sub @ post" by simp
      then show ?thesis by blast
    next
      case 2
      with Cons.IH obtain pre post where "cs = pre @ sub @ post" by blast
      then have "c # cs = (c # pre) @ sub @ post" by simp
      then show ?thesis by blast
    qed
  next
    assume "\<exists>pre post. c # cs = pre @ sub @ post"
    then obtain pre post where e: "c # cs = pre @ sub @ post" by blast
    show "Contains (c # cs) sub"
    proof (cases pre)
      case Nil
      with e have "HasPrefix (c # cs) sub" by (auto simp: HasPrefix_iff)
      then show ?thesis by simp
    next
      case (Cons a pre')
      with e have "cs = pre' @ sub @ post" by simp
      with Cons.IH show ?thesis by auto
    qed
  qed
qed

lemma contains_Contains: "contains ev text substr \<Longrightarrow> Contains (ToLower ev text) (ToLower ev substr)"
  by (simp add: contains_def)

lemma GetUserByEmail_users:
  "users w' = users w \<Longrightarrow> GetUserByEmail ev a w' = GetUserByEmail ev a w"
  by (simp add: GetUserByEmail_def split: option.splits)

text \<open>
  Claim C4: a verification reply from an unverified account with an active code that
  does not contain the code (compared in lower case), or whose preferences do not
  parse, changes neither the accounts nor the entries: the account is found afterwards
  as it was, unverified and with its code. The reply is answered by one request for
  clarification, whose message asks for the code when the reply lacks it and for the
  preferences otherwise. With that mail rendered as subject \<open>s\<close> and text \<open>t\<close> and its
  insert accepted, the handler returns without error and the state is the one before
  with exactly one row more in the outbox: a message of type \<open>clarification\<close> for the
  account, addressed to the account's address, with that subject and text, \<open>pending\<close>,
  never tried and due at once.
\<close>

theorem failed_verification_keeps_account:
  assumes "GetUserByEmail ev senderEmail w = Inr (Some user)" and "\<not> uIsVerified user"
    and "uVerificationCode user = Some code"
    and "\<not> Contains (ToLower ev body) (ToLower ev code)
         \<or> (\<exists>err. parseUserPreferences ev body = Inl err)"
  shows "users (snd (HandleEmailReply ev senderEmail subject body w)) = users w \<and>
         entries (snd (HandleEmailReply ev senderEmail subject body w)) = entries w \<and>
         GetUserByEmail ev senderEmail (snd (HandleEmailReply ev senderEmail subject body w))
           = Inr (Some user) \<and>
         (\<forall>s t. RenderClarificationEmail ev
                  (if body \<noteq> [] \<and> code \<noteq> [] \<and> Contains (ToLower ev body) (ToLower ev code)
                   then ''Please provide your preferences in the format shown in the welcome email''
                   else ''Please include your verification code in your reply'') = Inr (s, t) \<and>
                db_error ev (InsertEmailLog (Some (uID user)) (uEmail user)
                               ''clarification'' s t None) = None \<longrightarrow>
            HandleEmailReply ev senderEmail subject body w =
              (None, w\<lparr>email_logs := email_logs w @
                [\<lparr>mID = email_logs_id_seq w + 1, mUserID = Some (uID user),
                  mRecipientEmail = uEmail user, mEmailType = ''clarification'',
                  mSubject = s, mBodyText = t, mStatus = ''pending'',
                  mSESMessageID = None, mErrorMessage = None, mRetryCount = 0,
                  mScheduledAt = None, mSentAt = None,
                  mCreatedAt = now ev, mUpdatedAt = now ev\<rparr>],
               email_logs_id_seq := email_logs_id_seq w + 1\<rparr>))"
proof -
  let ?msg = "if body \<noteq> [] \<and> code \<noteq> [] \<and> Contains (ToLower ev body) (ToLower ev code)
              then ''Please provide your preferences in the format shown in the welcome email''
              else ''Please include your verification code in your reply''"
  have h: "HandleEmailReply ev senderEmail subject body w = handleVerificationReply ev user body w"
    using assms(1,2) by (simp add: HandleEmailReply_def)
  have c: "contains ev body code
       \<longleftrightarrow> body \<noteq> [] \<and> code \<noteq> [] \<and> Contains (ToLower ev body) (ToLower ev code)"
    by (simp add: contains_def)
  have m: "handleVerificationReply ev user body w
              = SendClarificationRequest ev (uID user) (uEmail user) ?msg w"
  proof (cases "contains ev body code")
    case False
    then show ?thesis using assms(3) c by (auto simp: handleVerificationReply_def)
  next
    case True
    with assms(4) contains_Contains obtain err where "parseUserPreferences ev body = Inl err"
      by blast
    with True show ?thesis using assms(3) c by (auto simp: handleVerificationReply_def)
  qed
  have u: "users (snd (HandleEmailReply ev senderEmail subject body w)) = users w"
    unfolding h m by simp
  have g: "GetUserByEmail ev senderEmail (snd (HandleEmailReply ev senderEmail subject body w))
           = Inr (Some user)"
    using GetUserByEmail_users[OF u] assms(1) by simp
  have q: "HandleEmailReply ev senderEmail subject body w =
              (None, w\<lparr>email_logs := email_logs w @
                [\<lparr>mID = email_logs_id_seq w + 1, mUserID = Some (uID user),
                  mRecipientEmail = uEmail user, mEmailType = ''clarification'',
                  mSubject = s, mBodyText = t, mStatus = ''pending'',
                  mSESMessageID = None, mErrorMessage = None, mRetryCount = 0,
                  mScheduledAt = None, mSentAt = None,
                  mCreatedAt = now ev, mUpdatedAt = now ev\<rparr>],
               email_logs_id_seq := email_logs_id_seq w + 1\<rparr>)"
    if "RenderClarificationEmail ev ?msg = Inr (s, t)"
       "db_error ev (InsertEmailLog (Some (uID user)) (uEmail user)
                               ''clarification'' s t None) = None" for s t
    unfolding h m by (rule SendClarification_ok[OF that])
  have e: "entries (snd (HandleEmailReply ev senderEmail subject body w)) = entries w"
    unfolding h m by simp
  from u e g q show ?thesis by blast
qed

theorem failed_verification_keeps_account_witness:
  "GetUserByEmail (sampleEnv 5) ''ada@example.org'' (emptyWorld\<lparr>users := [pendingUser]\<rparr>)
     = Inr (Some pendingUser) \<and>
   \<not> uIsVerified pendingUser \<and> uVerificationCode pendingUser = Some ''123456'' \<and>
   \<not> Contains (ToLower (sampleEnv 5) ''my code is 654321'') (ToLower (sampleEnv 5) ''123456'') \<and>
   HandleEmailReply (sampleEnv 5) ''ada@example.org'' ''Re: welcome''
      ''my code is 654321'' (emptyWorld\<lparr>users := [pendingUser]\<rparr>) =
     (None, emptyWorld\<lparr>users := [pendingUser],
        email_logs :=
          [\<lparr>mID = 1, mUserID = Some 1, mRecipientEmail = ''ada@example.org'',
            mEmailType = ''clarification'',
            mSubject = ''Clarification needed for your journal entry'',
            mBodyText = ''Please include your verification code in your reply'',
            mStatus = ''pending'', mSESMessageID = None, mErrorMessage = None,
            mRetryCount = 0, mScheduledAt = None, mSentAt = None,
            mCreatedAt = 5, mUpdatedAt = 5\<rparr>],
        email_logs_id_seq := 1\<rparr>) \<and>
   Contains (ToLower (sampleEnv 5) ''123456 is my code'') (ToLower (sampleEnv 5) ''123456'') \<and>
   parseUserPreferences (sampleEnv 5) ''123456 is my code'' = Inl ''name is required'' \<and>
   HandleEmailReply (sampleEnv 5) ''ada@example.org'' ''Re: welcome''
      ''123456 is my code'' (emptyWorld\<lparr>users := [pendingUser]\<rparr>) =
     (None, emptyWorld\<lparr>users := [pendingUser],
        email_logs :=
          [\<lparr>mID = 1, mUserID = Some 1, mRecipientEmail = ''ada@example.org'',
            mEmailType = ''clarification'',
            mSubject = ''Clarification needed for your journal entry'',
            mBodyText =
              ''Please provide your preferences in the format shown in the welcome email'',
            mStatus = ''pending'', mSESMessageID = None, mErrorMessage = None,
            mRetryCount = 0, mScheduledAt = None, mSentAt = None,
            mCreatedAt = 5, mUpdatedAt = 5\<rparr>],
        email_logs_id_seq := 1\<rparr>)"
proof -
  let ?ev = "sampleEnv 5"
  let ?w = "emptyWorld\<lparr>users := [pendingUser]\<rparr>"
  let ?b1 = "''my code is 654321''" and ?b2 = "''123456 is my code''"
  let ?m1 = "''Please include your verification code in your reply''"
  let ?m2 = "''Please provide your preferences in the format shown in the welcome email''"
  let ?row = "\<lambda>m. \<lparr>mID = email_logs_id_seq ?w + 1, mUserID = Some (uID pendingUser),
          mRecipientEmail = uEmail pendingUser, mEmailType = ''clarification'',
          mSubject = ''Clarification needed for your journal entry'',
          mBodyText = m, mStatus = ''pending'',
          mSESMessageID = None, mErrorMessage = None, mRetryCount = 0,
          mScheduledAt = None, mSentAt = None,
          mCreatedAt = now ?ev, mUpdatedAt = now ?ev\<rparr>"
  have u: "GetUserByEmail ?ev ''ada@example.org'' ?w = Inr (Some pendingUser)"
    by code_simp
  have v: "\<not> uIsVerified pendingUser" and c: "uVerificationCode pendingUser = Some ''123456''"
    by (simp_all add: pendingUser_def)
  have n1: "\<not> Contains (ToLower ?ev ?b1) (ToLower ?ev ''123456'')" by code_simp
  have n2: "Contains (ToLower ?ev ?b2) (ToLower ?ev ''123456'')" by code_simp
  have p2: "parseUserPreferences ?ev ?b2 = Inl ''name is required''" by code_simp
  have h1: "\<not> Contains (ToLower ?ev ?b1) (ToLower ?ev ''123456'')
         \<or> (\<exists>err. parseUserPreferences ?ev ?b1 = Inl err)" using n1 by blast
  have h2: "\<not> Contains (ToLower ?ev ?b2) (ToLower ?ev ''123456'')
         \<or> (\<exists>err. parseUserPreferences ?ev ?b2 = Inl err)" using p2 by blast
  have r: "RenderClarificationEmail ?ev msg
             = Inr (''Clarification needed for your journal entry'', msg) \<and>
           db_error ?ev (InsertEmailLog (Some (uID pendingUser)) (uEmail pendingUser)
              ''clarification'' ''Clarification needed for your journal entry'' msg None) = None"
    for msg by (simp add: sampleEnv_def)
  have f: "uID pendingUser = 1" "uEmail pendingUser = ''ada@example.org''"
    "now ?ev = 5" "email_logs ?w = []" "email_logs_id_seq ?w = 0"
    by (simp_all add: pendingUser_def sampleUser_def sampleEnv_def emptyWorld_def)
  from failed_verification_keeps_account[OF u v c h1, of "''Re: welcome''"] n1 r[of ?m1]
  have "HandleEmailReply ?ev ''ada@example.org'' ''Re: welcome'' ?b1 ?w =
     (None, ?w\<lparr>email_logs := email_logs ?w @ [?row ?m1],
               email_logs_id_seq := email_logs_id_seq ?w + 1\<rparr>)"
    by simp
  then have 1: "HandleEmailReply ?ev ''ada@example.org'' ''Re: welcome'' ?b1 ?w =
     (None, emptyWorld\<lparr>users := [pendingUser],
        email_logs :=
          [\<lparr>mID = 1, mUserID = Some 1, mRecipientEmail = ''ada@example.org'',
            mEmailType = ''clarification'',
            mSubject = ''Clarification needed for your journal entry'',
            mBodyText = ?m1,
            mStatus = ''pending'', mSESMessageID = None, mErrorMessage = None,
            mRetryCount = 0, mScheduledAt = None, mSentAt = None,
            mCreatedAt = 5, mUpdatedAt = 5\<rparr>],
        email_logs_id_seq := 1\<rparr>)"
    by (simp only: f append_Nil) simp
  from failed_verification_keeps_account[OF u v c h2, of "''Re: welcome''"] n2 r[of ?m2]
  have "HandleEmailReply ?ev ''ada@example.org'' ''Re: welcome'' ?b2 ?w =
     (None, ?w\<lparr>email_logs := email_logs ?w @ [?row ?m2],
               email_logs_id_seq := email_logs_id_seq ?w + 1\<rparr>)"
    by simp
  then have 2: "HandleEmailReply ?ev ''ada@example.org'' ''Re: welcome'' ?b2 ?w =
     (None, emptyWorld\<lparr>users := [pendingUser],
        email_logs :=
          [\<lparr>mID = 1, mUserID = Some 1, mRecipientEmail = ''ada@example.org'',
            mEmailType = ''clarification'',
            mSubject = ''Clarification needed for your journal entry'',
            mBodyText = ?m2,
            mStatus = ''pending'', mSESMessageID = None, mErrorMessage = None,
            mRetryCount = 0, mScheduledAt = None, mSentAt = None,
            mCreatedAt = 5, mUpdatedAt = 5\<rparr>],
        email_logs_id_seq := 1\<rparr>)"
    by (simp only: f append_Nil) simp
  from u v c n1 1 n2 p2 2 show ?thesis by blast
qed
section \<open>Preferences of the verification reply\<close>

lemma ext_cap_length: "cap \<longrightarrow> caps \<noteq> [] \<Longrightarrow> length (ext_cap cap x caps) = length caps"
  by (cases cap; cases caps) auto

lemma rx_match_groups:
  "rx_match re s = Some (caps, rest) \<Longrightarrow> length caps = ngroups re"
proof (induction re s arbitrary: caps rest rule: rx_match.induct)
  case (1 s)
  then show ?case by simp
next
  case (2 ci l r s)
  then show ?case by (auto split: option.splits)
next
  case (3 ci cap r s)
  then show ?case by simp
next
  case (4 ci l ls cap r s)
  show ?case
  proof (cases "lit_strip ci l s")
    case (Some mid)
    show ?thesis
    proof (cases "rx_match r mid")
      case None
      with Some 4 show ?thesis by simp
    next
      case (Some m)
      obtain c0 r0 where m: "m = (c0, r0)" by (cases m)
      from "4.IH"(1)[OF \<open>lit_strip ci l s = Some mid\<close>] Some m have "length c0 = ngroups r" by simp
      with \<open>lit_strip ci l s = Some mid\<close> Some m "4.prems" show ?thesis by auto
    qed
  next
    case None
    with 4 show ?thesis by simp
  qed
next
  case (5 c cap r)
  then show ?case by (cases "rx_match r []") auto
next
  case (6 c cap r x xs)
  show ?case
  proof (cases "if c x then rx_match (Star c cap # r) xs else None")
    case (Some m0)
    then have cx: "c x" and m': "rx_match (Star c cap # r) xs = Some m0"
      by (simp_all split: if_splits)
    obtain c0 r0 where m: "rx_match (Star c cap # r) xs = Some (c0, r0)"
      using m' by (cases m0) simp
    from "6.IH"(1)[OF cx m] have l: "length c0 = ngroups (Star c cap # r)" .
    then have "cap \<longrightarrow> c0 \<noteq> []" by auto
    from ext_cap_length[OF this] l m cx "6.prems" show ?thesis by auto
  next
    case None
    with "6.prems" have a: "add_cap cap [] (rx_match r (x # xs)) = Some (caps, rest)" by simp
    then obtain c0 where c0: "rx_match r (x # xs) = Some (c0, rest)"
      by (cases "rx_match r (x # xs)") auto
    from "6.IH"(2)[OF None c0] have "length c0 = ngroups r" .
    with a c0 show ?thesis by auto
  qed
next
  case (7 c cap r)
  then show ?case by simp
next
  case (8 c cap r x xs)
  from "8.prems" have cx: "c x" by (auto split: if_splits)
  with "8.prems" obtain c0 r0 where m: "rx_match (Star c cap # r) xs = Some (c0, r0)"
    by (auto split: option.splits)
  with "8.IH" cx have l: "length c0 = ngroups (Star c cap # r)" by simp
  then have "cap \<longrightarrow> c0 \<noteq> []" by auto
  from ext_cap_length[OF this] l m cx "8.prems" show ?case by auto
qed

lemma rx_find_groups:
  "rx_find re s = Some (pre, ms, rest) \<Longrightarrow> length ms = Suc (ngroups re)"
proof (induction s arbitrary: pre)
  case Nil
  then obtain m where m: "rx_match re [] = Some m" by (auto split: option.splits)
  obtain c0 r0 where "m = (c0, r0)" by (cases m)
  with m Nil rx_match_groups[of re "[]" c0 r0] show ?case
    by (auto simp: submatches_def)
next
  case (Cons x xs)
  show ?case
  proof (cases "rx_match re (x # xs)")
    case (Some m)
    obtain c0 r0 where "m = (c0, r0)" by (cases m)
    with Some Cons.prems rx_match_groups[of re "x # xs" c0 r0] show ?thesis
      by (auto simp: submatches_def)
  next
    case None
    with Cons.prems obtain pre' where "rx_find re xs = Some (pre', ms, rest)"
      by (auto split: option.splits)
    then show ?thesis by (rule Cons.IH)
  qed
qed

lemma captured_None:
  assumes "ngroups re = 1"
  shows "captured re body = None \<longleftrightarrow> rx_find re body = None"
proof (cases "rx_find re body")
  case None
  then show ?thesis by (simp add: captured_def FindStringSubmatch_def)
next
  case (Some r)
  obtain pre ms rest where r: "r = (pre, ms, rest)" by (cases r)
  with Some rx_find_groups[of re body pre ms rest] assms have "length ms = 2" by simp
  with Some r show ?thesis by (simp add: captured_def FindStringSubmatch_def Let_def)
qed

lemma star_extend:
  "list_all c xs \<Longrightarrow> rx_match (Star c cap # r) ys = Some m \<Longrightarrow>
   \<exists>m'. rx_match (Star c cap # r) (xs @ ys) = Some m'"
proof (induction xs)
  case Nil
  then show ?case by simp
next
  case (Cons x xs)
  then obtain m' where "rx_match (Star c cap # r) (xs @ ys) = Some m'" by auto
  moreover obtain c0 r0 where "m' = (c0, r0)" by (cases m')
  moreover from Cons.prems have "c x" by simp
  ultimately show ?case by simp
qed

lemma lowerc_colon: "lowerc c = CHR '':'' \<longleftrightarrow> c = CHR '':''"
  by (auto simp: lowerc_def split: option.splits dest!: map_of_SomeD)

lemma fold_strip_append:
  "fold_strip (a @ b) s = (case fold_strip a s of None \<Rightarrow> None | Some mid \<Rightarrow> fold_strip b mid)"
  by (induction a s rule: fold_strip.induct) (auto split: option.splits)

lemma fold_strip_notColon:
  "fold_strip p s = Some rest \<Longrightarrow> CHR '':'' \<notin> set p \<Longrightarrow> \<exists>xs. s = xs @ rest \<and> list_all notColon xs"
proof (induction p s rule: fold_strip.induct)
  case (1 s)
  then show ?case by simp
next
  case (2 p ps)
  then show ?case by simp
next
  case (3 p ps c cs)
  from "3.prems"(2) have p: "p \<noteq> CHR '':''" "CHR '':'' \<notin> set ps" by auto
  consider (a) "lowerc c = lowerc p"
    | (b) "lowerc c \<noteq> lowerc p" "lowerc p = CHR ''s''" "HasPrefix (c # cs) [CHR 0xC5, CHR 0xBF]"
    | (c) "lowerc c \<noteq> lowerc p"
        "\<not> (lowerc p = CHR ''s'' \<and> HasPrefix (c # cs) [CHR 0xC5, CHR 0xBF])"
        "lowerc p = CHR ''k''" "HasPrefix (c # cs) [CHR 0xE2, CHR 0x84, CHR 0xAA]"
    using "3.prems"(1) by (auto split: if_splits)
  then show ?case
  proof cases
    case a
    with "3.prems"(1) have "fold_strip ps cs = Some rest" by simp
    from "3.IH"(1)[OF a this p(2)] obtain xs where xs: "cs = xs @ rest" "list_all notColon xs"
      by blast
    from a p(1) have "c \<noteq> CHR '':''" using lowerc_colon by metis
    with xs have "c # cs = (c # xs) @ rest \<and> list_all notColon (c # xs)"
      by (simp add: notColon_def)
    then show ?thesis by blast
  next
    case b
    then obtain d ds where cs: "c = CHR 0xC5" "cs = d # ds" "d = CHR 0xBF"
      by (cases cs) auto
    with b "3.prems"(1) have "fold_strip ps (drop 1 cs) = Some rest" by simp
    from "3.IH"(2)[OF b(1) _ this p(2)] b
    obtain xs where xs: "drop 1 cs = xs @ rest" "list_all notColon xs" by blast
    with cs have "c # cs = (c # d # xs) @ rest \<and> list_all notColon (c # d # xs)"
      by (simp add: notColon_def)
    then show ?thesis by blast
  next
    case c
    then obtain d e ds where cs: "c = CHR 0xE2" "cs = d # e # ds" "d = CHR 0x84" "e = CHR 0xAA"
      by (cases cs; cases "tl cs") auto
    with c "3.prems"(1) have "fold_strip ps (drop 2 cs) = Some rest" by simp
    from "3.IH"(3)[OF c(1) c(2) _ this p(2)] c
    obtain xs where xs: "drop 2 cs = xs @ rest" "list_all notColon xs" by blast
    with cs have "c # cs = (c # d # e # xs) @ rest \<and> list_all notColon (c # d # e # xs)"
      by (simp add: notColon_def)
    then show ?thesis by blast
  qed
qed

lemma timezone_is_time:
  assumes "rx_match timezoneRegex s = Some m"
  shows "\<exists>m'. rx_match timeRegex s = Some m'"
proof -
  from assms have "rx_match (Lit True (''time'' @ ''zone'') # labelTail) s = Some m"
    by (simp add: timezoneRegex_def labelTail_def)
  then obtain rest where r: "fold_strip (''time'' @ ''zone'') s = Some rest"
    and t: "rx_match labelTail rest = Some m"
    by (auto simp: lit_strip_def split: option.splits)
  from r obtain mid where mid: "fold_strip ''time'' s = Some mid" "fold_strip ''zone'' mid = Some rest"
    by (auto simp only: fold_strip_append split: option.splits)
  from fold_strip_notColon[OF mid(2)] obtain zs where zs: "mid = zs @ rest" "list_all notColon zs"
    by auto
  have lt: "labelTail
      = Star notColon False # [Lit True '':'', Star reSpace False, Plus notNewline True]"
    by (simp add: labelTail_def)
  obtain m' where "rx_match labelTail (zs @ rest) = Some m'"
    using star_extend[OF zs(2), of False "[Lit True '':'', Star reSpace False, Plus notNewline True]"
        rest m] t
    unfolding lt by blast
  then have m': "rx_match labelTail mid = Some m'" by (simp only: zs(1))
  obtain c0 r0 where c: "m' = (c0, r0)" by (cases m')
  have "lit_strip True ''time'' s = Some mid" using mid(1) by (simp only: lit_strip_def if_True)
  then have "rx_match (Alt True [''time'', ''prompt''] False # labelTail) s = Some m'"
    using m' c by (simp only: rx_match.simps option.case add_cap.simps if_False)
  then show ?thesis by (auto simp: timeRegex_def labelTail_def)
qed

lemma find_timezone_is_time:
  "rx_find timezoneRegex s = Some r \<Longrightarrow> \<exists>r'. rx_find timeRegex s = Some r'"
proof (induction s arbitrary: r)
  case Nil
  then obtain m where "rx_match timezoneRegex [] = Some m" by (auto split: option.splits)
  from timezone_is_time[OF this] show ?case by auto
next
  case (Cons x xs)
  show ?case
  proof (cases "rx_match timezoneRegex (x # xs)")
    case (Some m)
    from timezone_is_time[OF this] show ?thesis by auto
  next
    case None
    with Cons.prems obtain r0 where "rx_find timezoneRegex xs = Some r0"
      by (auto split: option.splits)
    from Cons.IH[OF this] obtain r' where r': "rx_find timeRegex xs = Some r'" by blast
    obtain p ms rest where "r' = (p, ms, rest)" by (cases r')
    with r' show ?thesis by (cases "rx_match timeRegex (x # xs)") auto
  qed
qed

lemma accepted_values:
  assumes "parseUserPreferences ev body = Inr p"
  shows "\<not> isPlaceholder (case captured nameRegex body of Some v \<Rightarrow> v | None \<Rightarrow> [])"
    and "\<not> isPlaceholder (case captured timezoneRegex body of Some v \<Rightarrow> v | None \<Rightarrow> [])"
    and "captured timeRegex body = None \<or>
         (\<exists>t c. captured timeRegex body = Some t \<and> parseTimeString ev t = Inr c
                \<and> PromptTime p = Some c)"
  using assms
  by (auto simp: parseUserPreferences_def Let_def split: option.splits sum.splits if_splits)

lemma no_time_no_timezone:
  assumes "captured timeRegex body = None"
  shows "captured timezoneRegex body = None"
proof -
  have g: "ngroups timeRegex = 1" "ngroups timezoneRegex = 1"
    by (simp_all add: timeRegex_def timezoneRegex_def)
  from assms have "rx_find timeRegex body = None" by (simp add: captured_None[OF g(1)])
  then have "rx_find timezoneRegex body = None"
    using find_timezone_is_time[of body] by (cases "rx_find timezoneRegex body") auto
  then show ?thesis by (simp add: captured_None[OF g(2)])
qed

lemma default_time_never_used:
  assumes "parseUserPreferences ev body = Inr p"
  shows "\<exists>t c. captured timeRegex body = Some t \<and> parseTimeString ev t = Inr c
               \<and> PromptTime p = Some c"
proof (cases "captured timeRegex body")
  case None
  then have "captured timezoneRegex body = None" by (rule no_time_no_timezone)
  with accepted_values(2)[OF assms] show ?thesis by (simp add: isPlaceholder_def)
next
  case (Some t)
  with accepted_values(3)[OF assms] show ?thesis by simp
qed

text \<open>
  Case folding outside ASCII: the zone name written with the Kelvin sign for \<open>k\<close> is
  the listed zone, and the label written with the long s is the label \<open>focus\<close>.
\<close>

lemma fold_outside_ascii:
  "EqualFold (''Asia/To'' @ [CHR 0xE2, CHR 0x84, CHR 0xAA] @ ''yo'') ''Asia/Tokyo''"
  "captured prefsProjectRegex (''Focu'' @ [CHR 0xC5, CHR 0xBF] @ '': journal'') = Some ''journal''"
  "\<not> EqualFold (''Asia/To'' @ [CHR 0xE2, CHR 0x84, CHR 0xAB] @ ''yo'') ''Asia/Tokyo''"
  by code_simp+

text \<open>
  Claim C7, as stated, fails: it says that a required value that is a run of
  underscores is rejected. \<open>parseUserPreferences\<close> compares with the two texts \<open>_\<close> and
  \<open>___________\<close> (the eleven underscores of the welcome mail) only; a name of two
  underscores is accepted.
\<close>

theorem underscore_name_counterexample:
  "parseUserPreferences (sampleEnv 5) ''Name: __\<newline>Time: 9:00 AM\<newline>Timezone: UTC''
     = Inr \<lparr>Name = ''__'', Timezone = ''UTC'', PromptTime = Some (9, 0), ProjectFocus = None\<rparr>"
  by code_simp

text \<open>
  A blank value is not always seen as blank: \<open>\s*\<close> in the patterns also crosses the
  line end, so a label with nothing after it takes the next line as its value.
\<close>

lemma blank_name_takes_next_line:
  "parseUserPreferences (sampleEnv 5) ''Name:\<newline>Time: 9:00 AM\<newline>Timezone: UTC''
     = Inr \<lparr>Name = ''Time: 9:00 AM'', Timezone = ''UTC'', PromptTime = Some (9, 0),
            ProjectFocus = None\<rparr>"
  by code_simp

text \<open>
  Claim C7, amended: preference parsing fails whenever the name or the time zone that
  the patterns find is missing, empty, \<open>_\<close> or \<open>___________\<close>, and whenever no preferred
  time is found or the one found is not accepted by any clock layout. In particular no
  reply is accepted with the default time (\<open>default_time_never_used\<close>): the time pattern
  matches wherever the time-zone pattern does.
\<close>

theorem parseUserPreferences_rejects:
  assumes "missingOrPlaceholder nameRegex body \<or> missingOrPlaceholder timezoneRegex body \<or>
           (case captured timeRegex body of
              None \<Rightarrow> True
            | Some t \<Rightarrow> (\<exists>err. parseTimeString ev t = Inl err))"
  shows "\<exists>err. parseUserPreferences ev body = Inl err"
proof (cases "parseUserPreferences ev body")
  case (Inl err)
  then show ?thesis by blast
next
  case (Inr p)
  from accepted_values(1)[OF Inr] have n: "\<not> missingOrPlaceholder nameRegex body"
    by (auto simp: missingOrPlaceholder_def isPlaceholder_def split: option.splits)
  from accepted_values(2)[OF Inr] have z: "\<not> missingOrPlaceholder timezoneRegex body"
    by (auto simp: missingOrPlaceholder_def isPlaceholder_def split: option.splits)
  from default_time_never_used[OF Inr] obtain t c where
    "captured timeRegex body = Some t" "parseTimeString ev t = Inr c" by blast
  with n z assms show ?thesis by simp
qed

theorem parseUserPreferences_rejects_witness:
  "missingOrPlaceholder nameRegex ''Name: ___________\<newline>Time: 9:00 AM\<newline>Timezone: UTC'' \<and>
   (\<exists>err. parseUserPreferences (sampleEnv 5)
            ''Name: ___________\<newline>Time: 9:00 AM\<newline>Timezone: UTC'' = Inl err) \<and>
   captured timeRegex ''Name: Ada\<newline>Timezone: UTC'' = Some ''UTC'' \<and>
   parseTimeString (sampleEnv 5) ''UTC'' = Inl ''unable to parse time: UTC'' \<and>
   (\<exists>err. parseUserPreferences (sampleEnv 5) ''Name: Ada\<newline>Timezone: UTC'' = Inl err)"
proof -
  let ?b = "''Name: ___________\<newline>Time: 9:00 AM\<newline>Timezone: UTC''"
  let ?c = "''Name: Ada\<newline>Timezone: UTC''"
  have m: "missingOrPlaceholder nameRegex ?b" by code_simp
  have t: "captured timeRegex ?c = Some ''UTC''" by code_simp
  have e: "parseTimeString (sampleEnv 5) ''UTC'' = Inl ''unable to parse time: UTC''" by code_simp
  from m have 1: "\<exists>err. parseUserPreferences (sampleEnv 5) ?b = Inl err"
    by (intro parseUserPreferences_rejects) simp
  from t e have 2: "\<exists>err. parseUserPreferences (sampleEnv 5) ?c = Inl err"
    by (intro parseUserPreferences_rejects) simp
  from m t e 1 2 show ?thesis by blast
qed

end
